theory Spec2Isabelle
  imports Complex_Main
begin

section \<open>Paper trading engine (class PaperTrader)\<close>

text \<open>
  The engine is a JavaScript class whose methods mutate the fields of \<open>this\<close>. The model
  passes the object explicitly: every method takes the engine state and returns the new
  one next to its result. Conventions of the embedding:
  \<^item> JavaScript numbers holding money, prices and edges are \<open>real\<close> (exact arithmetic:
    the rounding of IEEE doubles is not modelled); counters and \<open>Math.floor\<close> results
    are \<open>int\<close>; a value that may be \<open>null\<close> is an \<open>option\<close>.
  \<^item> \<open>Date.now()\<close> and \<open>new Date()\<close> are the parameter \<open>now\<close> (milliseconds) of the
    method that reads the clock; one call of a method reads one instant.
  \<^item> Trade objects are shared between the array \<open>this.trades\<close> and the map
    \<open>this.positions\<close> and are mutated at settlement. The model keeps the objects in a
    store \<open>heap\<close> (a list, addressed by index) and lets \<open>trades\<close> and \<open>positions\<close>
    hold addresses. The map \<open>positions\<close> is an association list in insertion order.
  \<^item> \<open>save()\<close> writes the state to a file and \<open>console.log\<close> prints; neither changes
    the object, so neither appears in the model.
\<close>

subsection \<open>Data\<close>

datatype status = OPEN | SETTLED | FORCE_SETTLED

record trade =
  trade_id :: int
  timestamp :: int
  marketSlug :: string
  side :: string
  shares :: int
  entryPrice :: real
  cost :: real
  priceToBeat :: "real option"
  currentPrice :: "real option"
  edge :: "real option"
  strength :: "string option"
  phase :: string
  timeLeftMin :: "real option"
  status :: status
  pnl :: "real option"
  exitPrice :: "real option"
  settledAt :: "int option"
  outcome :: "string option"
  finalPrice :: "real option"

record stats =
  totalTrades :: int
  wins :: int
  losses :: int
  totalWon :: real
  totalLost :: real
  largestWin :: real
  largestLoss :: real
  currentStreak :: int
  bestStreak :: int
  worstStreak :: int

record lifetime_stats =
  totalSessions :: int
  lifeTotalTrades :: int
  lifeTotalWins :: int
  lifeTotalLosses :: int
  lifeTotalWon :: real
  lifeTotalLost :: real
  sessionsWon :: int
  sessionsLost :: int

text \<open>
  A closed session. \<open>pnlPct\<close> divides by the starting balance; it is \<open>None\<close> where
  JavaScript yields a non-finite number. \<open>winRate\<close> is the number that
  \<open>toFixed(1)\<close> prints (one decimal, ties upwards). Both are computed exactly here;
  the code computes them on doubles, so its last digit can differ (23 wins in 80 trades
  print as 28.7, the exact 28.75 rounds to 28.8).
\<close>

record session =
  session_id :: int
  session_startedAt :: int
  endedAt :: int
  session_startingBalance :: real
  endingBalance :: real
  session_pnl :: real
  pnlPct :: "real option"
  session_trades :: int
  session_wins :: int
  session_losses :: int
  winRate :: real
  wiped :: bool

text \<open>
  The snapshot \<open>latestData\<close> that the update cycle publishes, with the fields the engine
  reads: \<open>data.market.slug\<close>, \<open>data.timing.phase\<close>, \<open>data.prices.chainlink\<close> and so on.
\<close>

record snapshot =
  market_slug :: string
  timing_timeLeftMin :: "real option"
  timing_phase :: string
  prices_chainlink :: "real option"
  prices_priceToBeat :: "real option"
  prices_priceDelta :: "real option"
  polymarket_upPrice :: "real option"
  polymarket_downPrice :: "real option"
  signal_action :: string
  signal_side :: "string option"
  signal_strength :: "string option"
  signal_edge :: "real option"

record paper_trader =
  startingBalance :: real
  balance :: real
  heap :: "trade list"
  trades :: "nat list"
  positions :: "(int \<times> nat) list"
  enabled :: bool
  startedAt :: int
  stats :: stats
  sessionHistory :: "session list"
  lifetimeStats :: lifetime_stats
  minEdge :: real
  maxPositionPct :: real
  cooldownMs :: int
  lastTradeTime :: "int option"
  currentMarketSlug :: "string option"
  pendingSettlement :: "snapshot option"

text \<open>\<open>this.autoResetThreshold = 10\<close>: set by the constructor, never assigned again.\<close>

definition autoResetThreshold :: real where
  "autoResetThreshold = 10"

definition initLifetimeStats :: lifetime_stats where
  "initLifetimeStats =
     \<lparr>totalSessions = 0, lifeTotalTrades = 0, lifeTotalWins = 0, lifeTotalLosses = 0,
      lifeTotalWon = 0, lifeTotalLost = 0, sessionsWon = 0, sessionsLost = 0\<rparr>"

definition initStats :: stats where
  "initStats =
     \<lparr>totalTrades = 0, wins = 0, losses = 0, totalWon = 0, totalLost = 0,
      largestWin = 0, largestLoss = 0, currentStreak = 0, bestStreak = 0, worstStreak = 0\<rparr>"

text \<open>JavaScript truthiness of a string-or-null: \<open>null\<close> and the empty string are falsy.\<close>

fun truthy_str :: "string option \<Rightarrow> bool" where
  "truthy_str None = False"
| "truthy_str (Some x) = (x \<noteq> [])"

text \<open>\<open>null / 100\<close> is \<open>0\<close>: a null operand of arithmetic converts to zero.\<close>

fun to_number :: "real option \<Rightarrow> real" where
  "to_number None = 0"
| "to_number (Some x) = x"

text \<open>The string behind a string-or-null that has been tested truthy.\<close>

fun str_of :: "string option \<Rightarrow> string" where
  "str_of None = []"
| "str_of (Some x) = x"

text \<open>\<open>Map.prototype.set\<close> and \<open>Map.prototype.delete\<close> on the insertion-ordered map.\<close>

fun map_set :: "'k \<Rightarrow> 'v \<Rightarrow> ('k \<times> 'v) list \<Rightarrow> ('k \<times> 'v) list" where
  "map_set k v [] = [(k, v)]"
| "map_set k v ((k', v') # ps) = (if k' = k then (k, v) # ps else (k', v') # map_set k v ps)"

definition map_delete :: "'k \<Rightarrow> ('k \<times> 'v) list \<Rightarrow> ('k \<times> 'v) list" where
  "map_delete k ps = filter (\<lambda>p. fst p \<noteq> k) ps"

subsection \<open>Session lifecycle: reset and checkAutoReset\<close>

definition close_session :: "int \<Rightarrow> paper_trader \<Rightarrow> session" where
  "close_session now s =
     \<lparr>session_id = int (length (sessionHistory s)) + 1,
      session_startedAt = startedAt s,
      endedAt = now,
      session_startingBalance = startingBalance s,
      endingBalance = balance s,
      session_pnl = balance s - startingBalance s,
      pnlPct = (if startingBalance s = 0 then None
                else Some ((balance s / startingBalance s - 1) * 100)),
      session_trades = totalTrades (stats s),
      session_wins = wins (stats s),
      session_losses = losses (stats s),
      winRate = (if totalTrades (stats s) > 0
                 then of_int \<lfloor>of_int (wins (stats s)) / of_int (totalTrades (stats s)) * 100 * 10
                                + (1 / 2 :: real)\<rfloor> / 10
                 else 0),
      wiped = (balance s < autoResetThreshold)\<rparr>"

definition fold_lifetime :: "paper_trader \<Rightarrow> lifetime_stats" where
  "fold_lifetime s =
     (let l = lifetimeStats s; sessionPnl = balance s - startingBalance s in
      l\<lparr>totalSessions := totalSessions l + 1,
        lifeTotalTrades := lifeTotalTrades l + totalTrades (stats s),
        lifeTotalWins := lifeTotalWins l + wins (stats s),
        lifeTotalLosses := lifeTotalLosses l + losses (stats s),
        lifeTotalWon := lifeTotalWon l + totalWon (stats s),
        lifeTotalLost := lifeTotalLost l + totalLost (stats s),
        sessionsWon := (if sessionPnl > 0 then sessionsWon l + 1 else sessionsWon l),
        sessionsLost := (if sessionPnl > 0 then sessionsLost l else sessionsLost l + 1)\<rparr>)"

definition reset :: "int \<Rightarrow> real \<Rightarrow> bool \<Rightarrow> paper_trader \<Rightarrow> paper_trader" where
  "reset now newBalance recordSession s =
     (let s1 = (if recordSession \<and> totalTrades (stats s) > 0
                then s\<lparr>sessionHistory := sessionHistory s @ [close_session now s],
                       lifetimeStats := fold_lifetime s\<rparr>
                else s)
      in s1\<lparr>startingBalance := newBalance,
             balance := newBalance,
             trades := [],
             positions := [],
             startedAt := now,
             stats := initStats,
             lastTradeTime := None\<rparr>)"

definition checkAutoReset :: "int \<Rightarrow> paper_trader \<Rightarrow> bool \<times> paper_trader" where
  "checkAutoReset now s =
     (if balance s < autoResetThreshold \<and> length (positions s) = 0
      then (True, reset now (startingBalance s) True s)
      else (False, s))"

subsection \<open>Gates: canTrade\<close>

text \<open>
  The reasons of a refusal, one constructor per message of the source:
  "Paper trading disabled", "Session reset - waiting for next signal",
  "Balance too low - waiting for positions to settle", "Cooldown: <n>s",
  "No actionable signal", "Edge <e>% below min <m>%", "Signal not strong enough",
  "Too late in window", "Invalid price", "Position size too small",
  "Insufficient balance".
\<close>

datatype reason =
    PaperTradingDisabled
  | SessionReset
  | BalanceTooLow
  | Cooldown int
  | NoActionableSignal
  | EdgeBelowMin "real option" real
  | SignalNotStrongEnough
  | TooLateInWindow
  | InvalidPrice
  | PositionSizeTooSmall
  | InsufficientBalance

datatype can_trade = Allowed | NotAllowed reason

datatype trade_result = NotTraded reason | Traded trade real

text \<open>
  The milliseconds of cooldown still to run, if any: \<open>this.lastTradeTime\<close> is tested for
  truthiness, so \<open>null\<close> and \<open>0\<close> both mean that no cooldown applies.
\<close>

definition cooldown_left :: "int \<Rightarrow> paper_trader \<Rightarrow> int option" where
  "cooldown_left now s =
     (case lastTradeTime s of
        None \<Rightarrow> None
      | Some t0 \<Rightarrow>
          if t0 \<noteq> 0 \<and> now - t0 < cooldownMs s
          then Some (cooldownMs s - (now - t0))
          else None)"

definition canTrade :: "int \<Rightarrow> paper_trader \<Rightarrow> can_trade \<times> paper_trader" where
  "canTrade now s =
     (if \<not> enabled s then (NotAllowed PaperTradingDisabled, s)
      else
        (case checkAutoReset now s of
           (True, s') \<Rightarrow> (NotAllowed SessionReset, s')
         | (False, s') \<Rightarrow>
             if balance s' < autoResetThreshold then (NotAllowed BalanceTooLow, s')
             else
               (case cooldown_left now s' of
                  Some ms \<Rightarrow> (NotAllowed (Cooldown \<lceil>of_int ms / (1000 :: real)\<rceil>), s')
                | None \<Rightarrow> (Allowed, s'))))"

subsection \<open>Settlement: settlePositions\<close>

definition update_stats :: "real \<Rightarrow> stats \<Rightarrow> stats" where
  "update_stats p st =
     (let st1 = st\<lparr>totalTrades := totalTrades st + 1\<rparr> in
      if p > 0 then
        (let streak = max 0 (currentStreak st1) + 1 in
         st1\<lparr>wins := wins st1 + 1,
             totalWon := totalWon st1 + p,
             largestWin := max (largestWin st1) p,
             currentStreak := streak,
             bestStreak := max (bestStreak st1) streak\<rparr>)
      else
        (let streak = min 0 (currentStreak st1) - 1 in
         st1\<lparr>losses := losses st1 + 1,
             totalLost := totalLost st1 + \<bar>p\<bar>,
             largestLoss := max (largestLoss st1) \<bar>p\<bar>,
             currentStreak := streak,
             worstStreak := min (worstStreak st1) streak\<rparr>))"

text \<open>What a position pays: one dollar per share on the winning side, nothing otherwise.\<close>

definition payout :: "string \<Rightarrow> trade \<Rightarrow> real" where
  "payout oc t = (if side t = oc then of_int (shares t) * 1 else 0)"

definition settle_trade :: "int \<Rightarrow> string \<Rightarrow> real \<Rightarrow> trade \<Rightarrow> trade" where
  "settle_trade now oc cp t =
     t\<lparr>status := SETTLED,
       exitPrice := Some (if side t = oc then 1 else 0),
       pnl := Some (payout oc t - cost t),
       settledAt := Some now,
       outcome := Some oc,
       finalPrice := Some cp\<rparr>"

text \<open>The body of the loop for one open position: key \<open>k\<close>, trade object at address \<open>r\<close>.\<close>

definition settle_one :: "int \<Rightarrow> string \<Rightarrow> real \<Rightarrow> int \<Rightarrow> nat \<Rightarrow> paper_trader \<Rightarrow> paper_trader" where
  "settle_one now oc cp k r s =
     (let t = heap s ! r in
      s\<lparr>heap := (heap s)[r := settle_trade now oc cp t],
        balance := balance s + payout oc t,
        stats := update_stats (payout oc t - cost t) (stats s),
        positions := map_delete k (positions s)\<rparr>)"

text \<open>
  \<open>for (const [id, trade] of this.positions.entries())\<close>: the loop deletes only the entry
  it is visiting, so it visits the entries present at its start, in order.
\<close>

fun settle_loop :: "int \<Rightarrow> string \<Rightarrow> real \<Rightarrow> (int \<times> nat) list \<Rightarrow> paper_trader \<Rightarrow> paper_trader" where
  "settle_loop now oc cp [] s = s"
| "settle_loop now oc cp ((k, r) # ps) s =
     (if status (heap s ! r) \<noteq> OPEN then settle_loop now oc cp ps s
      else settle_loop now oc cp ps (settle_one now oc cp k r s))"

text \<open>\<open>const outcome = currentPrice > priceToBeat ? "UP" : "DOWN"\<close>\<close>

definition outcome_of :: "real \<Rightarrow> real \<Rightarrow> string" where
  "outcome_of cp ptb = (if cp > ptb then ''UP'' else ''DOWN'')"

definition settlePositions :: "int \<Rightarrow> snapshot option \<Rightarrow> paper_trader \<Rightarrow> paper_trader" where
  "settlePositions now finalData s =
     (case finalData of
        None \<Rightarrow> s
      | Some fd \<Rightarrow>
          if length (positions s) = 0 then s
          else
            (case (prices_chainlink fd, prices_priceToBeat fd) of
               (Some cp, Some ptb) \<Rightarrow> settle_loop now (outcome_of cp ptb) cp (positions s) s
             | _ \<Rightarrow> s))"

subsection \<open>Entry: evaluateAndTrade\<close>

text \<open>
  The object literal \<open>trade = {...}\<close> of an entry at price \<open>price\<close> for \<open>n\<close> shares
  costing \<open>c\<close>.
\<close>

definition new_trade :: "int \<Rightarrow> snapshot \<Rightarrow> real \<Rightarrow> int \<Rightarrow> real \<Rightarrow> trade" where
  "new_trade now d price n c =
     \<lparr>trade_id = now,
      timestamp = now,
      marketSlug = market_slug d,
      side = str_of (signal_side d),
      shares = n,
      entryPrice = price,
      cost = c,
      priceToBeat = prices_priceToBeat d,
      currentPrice = prices_chainlink d,
      edge = signal_edge d,
      strength = signal_strength d,
      phase = timing_phase d,
      timeLeftMin = timing_timeLeftMin d,
      status = OPEN,
      pnl = None,
      exitPrice = None,
      settledAt = None,
      outcome = None,
      finalPrice = None\<rparr>"

text \<open>
  The part of \<open>evaluateAndTrade\<close> after the settlement of the previous market: it records
  the snapshot, asks \<open>canTrade\<close>, runs the signal gates, sizes the position and buys.

  The arithmetic is exact: \<open>Math.floor(positionSize / price)\<close> is the floor of the exact
  quotient and \<open>shares * price\<close> the exact product. The code computes on doubles, whose
  rounding can move the quotient across an integer and the product across the balance:
  with a position size of 35 and price 0.28 it buys 124 shares where the exact floor is
  125, and with balance 51, a fraction of one, edge 200 and price 0.34 its cost comes to
  51.00000000000001. Sizes, share counts and the last gate below are the exact values.
\<close>

definition enter_trade :: "int \<Rightarrow> snapshot \<Rightarrow> paper_trader \<Rightarrow> trade_result \<times> paper_trader" where
  "enter_trade now d s0 =
     (case canTrade now (s0\<lparr>currentMarketSlug := Some (market_slug d),
                             pendingSettlement := Some d\<rparr>) of
        (NotAllowed why, s) \<Rightarrow> (NotTraded why, s)
      | (Allowed, s) \<Rightarrow>
          if signal_action d = ''HOLD'' \<or> \<not> truthy_str (signal_side d)
          then (NotTraded NoActionableSignal, s)
          else
            (let edgeValue = to_number (signal_edge d) / 100 in
             if edgeValue < minEdge s
             then (NotTraded (EdgeBelowMin (signal_edge d) (minEdge s * 100)), s)
             else if signal_strength d \<noteq> Some ''STRONG'' \<and> signal_strength d \<noteq> Some ''GOOD''
             then (NotTraded SignalNotStrongEnough, s)
             else if timing_phase d = ''LATE''
             then (NotTraded TooLateInWindow, s)
             else
               (case (if signal_side d = Some ''UP'' then polymarket_upPrice d
                      else polymarket_downPrice d) of
                  None \<Rightarrow> (NotTraded InvalidPrice, s)
                | Some price \<Rightarrow>
                    if price \<le> 0 \<or> price \<ge> 1 then (NotTraded InvalidPrice, s)
                    else
                      (let kellyFraction = min (edgeValue * 0.5) (maxPositionPct s);
                           positionSize = min (balance s * kellyFraction)
                                              (balance s * maxPositionPct s);
                           n = \<lfloor>positionSize / price\<rfloor>
                       in
                       if n < 1 \<or> positionSize < 1
                       then (NotTraded PositionSizeTooSmall, s)
                       else
                         (let c = of_int n * price in
                          if c > balance s then (NotTraded InsufficientBalance, s)
                          else
                            (let t = new_trade now d price n c;
                                 r = length (heap s);
                                 s' = s\<lparr>balance := balance s - c,
                                        lastTradeTime := Some now,
                                        heap := heap s @ [t],
                                        trades := trades s @ [r],
                                        positions := map_set now r (positions s)\<rparr>
                             in (Traded t (balance s'), s')))))))"

definition evaluateAndTrade :: "int \<Rightarrow> snapshot \<Rightarrow> paper_trader \<Rightarrow> trade_result \<times> paper_trader" where
  "evaluateAndTrade now d s =
     enter_trade now d
       (if truthy_str (currentMarketSlug s) \<and> currentMarketSlug s \<noteq> Some (market_slug d)
        then settlePositions now (pendingSettlement s) s
        else s)"

subsection \<open>Status query: getStatus\<close>

text \<open>
  The report of \<open>getStatus\<close>. The ratios that the source formats with \<open>toFixed\<close> for
  display (win rates, average win and loss, profit factor) are left out. \<open>pnlPct\<close> divides
  by the starting balance and is \<open>None\<close> where JavaScript yields a non-finite number.
\<close>

record status_report =
  r_enabled :: bool
  r_startingBalance :: real
  r_currentBalance :: real
  r_openPositionsValue :: real
  r_totalValue :: real
  r_pnl :: real
  r_pnlPct :: "real option"
  r_startedAt :: int
  r_currentSession :: int
  r_stats :: stats
  r_lifetimeStats :: lifetime_stats
  r_netPnl :: real
  r_sessionHistory :: "session list"
  r_openPositions :: "trade list"
  r_recentTrades :: "trade list"

text \<open>\<open>xs.slice(-n).reverse()\<close>: the last \<open>n\<close> elements, newest first.\<close>

definition last_reversed :: "nat \<Rightarrow> 'a list \<Rightarrow> 'a list" where
  "last_reversed n xs = rev (drop (length xs - n) xs)"

text \<open>The trade objects in the map \<open>positions\<close> whose status is OPEN, in map order.\<close>

definition open_positions :: "paper_trader \<Rightarrow> trade list" where
  "open_positions s =
     filter (\<lambda>t. status t = OPEN) (map (\<lambda>p. heap s ! snd p) (positions s))"

definition open_cost :: "paper_trader \<Rightarrow> real" where
  "open_cost s = foldl (\<lambda>acc t. acc + cost t) 0 (open_positions s)"

text \<open>What the loop pays for the entries \<open>ps\<close>, read off the store before the loop.\<close>

definition paid :: "string \<Rightarrow> trade list \<Rightarrow> (int \<times> nat) list \<Rightarrow> real" where
  "paid oc h ps =
     sum_list (map (\<lambda>p. if status (h ! snd p) = OPEN then payout oc (h ! snd p) else 0) ps)"

definition getStatus :: "int \<Rightarrow> paper_trader \<Rightarrow> status_report \<times> paper_trader" where
  "getStatus now s0 =
     (let s = snd (checkAutoReset now s0);
          openValue = open_cost s
      in (\<lparr>r_enabled = enabled s,
           r_startingBalance = startingBalance s,
           r_currentBalance = balance s,
           r_openPositionsValue = openValue,
           r_totalValue = balance s + openValue,
           r_pnl = (balance s + openValue) - startingBalance s,
           r_pnlPct = (if startingBalance s = 0 then None
                       else Some (((balance s + openValue) / startingBalance s - 1) * 100)),
           r_startedAt = startedAt s,
           r_currentSession = int (length (sessionHistory s)) + 1,
           r_stats = stats s,
           r_lifetimeStats = lifetimeStats s,
           r_netPnl = lifeTotalWon (lifetimeStats s) - lifeTotalLost (lifetimeStats s),
           r_sessionHistory = last_reversed 10 (sessionHistory s),
           r_openPositions = open_positions s,
           r_recentTrades = last_reversed 20 (map (\<lambda>r. heap s ! r) (trades s))\<rparr>, s))"

subsection \<open>Sequences of calls\<close>

datatype call = Evaluate int snapshot | Settle int "snapshot option"

fun apply_call :: "call \<Rightarrow> paper_trader \<Rightarrow> paper_trader" where
  "apply_call (Evaluate now d) s = snd (evaluateAndTrade now d s)"
| "apply_call (Settle now fd) s = settlePositions now fd s"

definition run_calls :: "call list \<Rightarrow> paper_trader \<Rightarrow> paper_trader" where
  "run_calls cs s = fold apply_call cs s"

subsection \<open>Representation invariants\<close>

text \<open>
  \<open>positions\<close> represents a JavaScript \<open>Map\<close> from ids to trade objects: no key occurs
  twice, every value is the address of an allocated object, and two entries never hold
  the same object (each entry is made from a freshly created trade).
\<close>

definition positions_ok :: "paper_trader \<Rightarrow> bool" where
  "positions_ok s \<longleftrightarrow>
     distinct (map fst (positions s)) \<and> distinct (map snd (positions s))
     \<and> list_all (\<lambda>p. snd p < length (heap s)) (positions s)"

subsection \<open>The gate sequence as the specification lists it\<close>

text \<open>
  The price the entry would pay, the dollar size and the share count, as
  \<open>evaluateAndTrade\<close> computes them (the price is \<open>0\<close> here where the snapshot has none;
  the price gate comes before any use of it).
\<close>

definition entry_price :: "snapshot \<Rightarrow> real option" where
  "entry_price d =
     (if signal_side d = Some ''UP'' then polymarket_upPrice d else polymarket_downPrice d)"

definition position_size :: "snapshot \<Rightarrow> paper_trader \<Rightarrow> real" where
  "position_size d s =
     min (balance s * min (to_number (signal_edge d) / 100 * 0.5) (maxPositionPct s))
         (balance s * maxPositionPct s)"

definition share_count :: "snapshot \<Rightarrow> paper_trader \<Rightarrow> int" where
  "share_count d s = \<lfloor>position_size d s / to_number (entry_price d)\<rfloor>"

text \<open>
  Section 4.7 of the specification: the gates in their stated order, each with the
  condition under which it refuses and the reason it gives. The first gate that refuses
  decides.
\<close>

definition gate_sequence :: "int \<Rightarrow> snapshot \<Rightarrow> paper_trader \<Rightarrow> (bool \<times> reason) list" where
  "gate_sequence now d s =
     [(\<not> enabled s, PaperTradingDisabled),
      (balance s < autoResetThreshold,
         if length (positions s) = 0 then SessionReset else BalanceTooLow),
      (cooldown_left now s \<noteq> None,
         Cooldown \<lceil>of_int (case cooldown_left now s of Some ms \<Rightarrow> ms | None \<Rightarrow> 0)
                   / (1000 :: real)\<rceil>),
      (signal_action d = ''HOLD'' \<or> \<not> truthy_str (signal_side d), NoActionableSignal),
      (to_number (signal_edge d) / 100 < minEdge s,
         EdgeBelowMin (signal_edge d) (minEdge s * 100)),
      (signal_strength d \<noteq> Some ''STRONG'' \<and> signal_strength d \<noteq> Some ''GOOD'',
         SignalNotStrongEnough),
      (timing_phase d = ''LATE'', TooLateInWindow),
      (case entry_price d of None \<Rightarrow> True | Some p \<Rightarrow> \<not> (0 < p \<and> p < 1), InvalidPrice),
      (share_count d s < 1 \<or> position_size d s < 1, PositionSizeTooSmall),
      (of_int (share_count d s) * to_number (entry_price d) > balance s, InsufficientBalance)]"

fun first_refusal :: "(bool \<times> reason) list \<Rightarrow> reason option" where
  "first_refusal [] = None"
| "first_refusal ((refuses, why) # gs) = (if refuses then Some why else first_refusal gs)"

text \<open>The state on which the gates of \<open>evaluateAndTrade\<close> are checked.\<close>

definition gate_state :: "int \<Rightarrow> snapshot \<Rightarrow> paper_trader \<Rightarrow> paper_trader" where
  "gate_state now d s =
     (if truthy_str (currentMarketSlug s) \<and> currentMarketSlug s \<noteq> Some (market_slug d)
      then settlePositions now (pendingSettlement s) s
      else s)\<lparr>currentMarketSlug := Some (market_slug d), pendingSettlement := Some d\<rparr>"

section \<open>Update cycle and serving layer\<close>

subsection \<open>Crossing counter: countVwapCrosses\<close>

text \<open>
  \<open>closes[i] - vwapSeries[i]\<close>. Reading an array past its end gives \<open>undefined\<close> and the
  difference is then \<open>NaN\<close>, here \<open>None\<close>: every comparison with it is false.
\<close>

definition diff_at :: "real list \<Rightarrow> real list \<Rightarrow> nat \<Rightarrow> real option" where
  "diff_at closes vwapSeries i =
     (if i < length closes \<and> i < length vwapSeries then Some (closes ! i - vwapSeries ! i)
      else None)"

fun positive :: "real option \<Rightarrow> bool" where
  "positive None = False"
| "positive (Some x) = (x > 0)"

fun negative :: "real option \<Rightarrow> bool" where
  "negative None = False"
| "negative (Some x) = (x < 0)"

text \<open>The \<open>for\<close> loop, from index \<open>i\<close> on, with the crosses counted so far.\<close>

function cross_loop :: "real list \<Rightarrow> real list \<Rightarrow> nat \<Rightarrow> nat \<Rightarrow> nat" where
  "cross_loop closes vwapSeries i crosses =
     (if i < length closes then
        (let prev = diff_at closes vwapSeries (i - 1);
             cur = diff_at closes vwapSeries i
         in if prev = Some 0 then cross_loop closes vwapSeries (i + 1) crosses
            else if (positive prev \<and> negative cur) \<or> (negative prev \<and> positive cur)
            then cross_loop closes vwapSeries (i + 1) (crosses + 1)
            else cross_loop closes vwapSeries (i + 1) crosses)
      else crosses)"
  by pat_completeness auto
termination
  by (relation "measure (\<lambda>(closes, vwapSeries, i, crosses). length closes - i)") auto

declare cross_loop.simps [simp del]

definition countVwapCrosses :: "real list \<Rightarrow> real list \<Rightarrow> nat \<Rightarrow> nat option" where
  "countVwapCrosses closes vwapSeries lookback =
     (if length closes < lookback \<or> length vwapSeries < lookback then None
      else Some (cross_loop closes vwapSeries (length closes - lookback + 1) 0))"

text \<open>
  A cross at bar \<open>i\<close>: the differences at bars \<open>i - 1\<close> and \<open>i\<close> have strictly
  opposite signs.
\<close>

definition crosses_at :: "real list \<Rightarrow> real list \<Rightarrow> nat \<Rightarrow> bool" where
  "crosses_at closes vwapSeries i \<longleftrightarrow>
     (positive (diff_at closes vwapSeries (i - 1)) \<and> negative (diff_at closes vwapSeries i))
     \<or> (negative (diff_at closes vwapSeries (i - 1)) \<and> positive (diff_at closes vwapSeries i))"

text \<open>
  The counter as the specification words it: sign changes of the difference over the
  last \<open>N\<close> bars, where a zero neither counts nor replaces the sign remembered from the
  last non-zero difference. \<open>sign_changes ref ds\<close> walks the differences with the
  remembered difference \<open>ref\<close> (\<open>0\<close> while none has been seen).
\<close>

fun sign_changes :: "real \<Rightarrow> real list \<Rightarrow> nat" where
  "sign_changes ref [] = 0"
| "sign_changes ref (x # xs) =
     (if x = 0 then sign_changes ref xs
      else if (ref > 0 \<and> x < 0) \<or> (ref < 0 \<and> x > 0) then Suc (sign_changes x xs)
      else sign_changes x xs)"

definition spec_crossing_counter :: "real list \<Rightarrow> real list \<Rightarrow> nat \<Rightarrow> nat option" where
  "spec_crossing_counter closes vwapSeries lookback =
     (if length closes < lookback \<or> length vwapSeries < lookback then None
      else Some (sign_changes 0
             (map (\<lambda>i. closes ! i - vwapSeries ! i)
                  [length closes - lookback ..< length closes])))"

subsection \<open>Latching the price to beat, publishing the snapshot: updateData\<close>

record price_to_beat_state =
  ptb_slug :: "string option"
  ptb_value :: "real option"
  ptb_setAtMs :: "int option"

text \<open>
  \<open>marketStartMs\<close>: \<open>null\<close> when the market or its start time is missing, otherwise
  \<open>new Date(...).getTime()\<close>, which is \<open>NaN\<close> for a text that is no date.
\<close>

datatype start_time = NoStart | InvalidStart | StartAt int

fun okToLatch :: "start_time \<Rightarrow> int \<Rightarrow> bool" where
  "okToLatch NoStart nowMs = True"
| "okToLatch InvalidStart nowMs = False"
| "okToLatch (StartAt startMs) nowMs = (nowMs \<ge> startMs)"

text \<open>
  What one run of the \<open>try\<close> block has in hand when it reaches the latch: the clock, the
  values derived from the fetched market and oracle price, and the recommendation
  \<open>rec\<close> and edges computed by the engines (functions outside this development).
\<close>

record cycle =
  nowMs :: int
  marketSlug_in :: string
  marketStartMs :: start_time
  currentPrice_in :: "real option"
  timeLeftMin_in :: "real option"
  rec_action :: string
  rec_side :: "string option"
  rec_strength :: "string option"
  rec_phase :: string
  edgeUp :: "real option"
  edgeDown :: "real option"
  marketUp :: "real option"
  marketDown :: "real option"

record server =
  latestData :: "snapshot option"
  priceToBeatState :: price_to_beat_state

definition initial_server :: server where
  "initial_server =
     \<lparr>latestData = None,
      priceToBeatState = \<lparr>ptb_slug = None, ptb_value = None, ptb_setAtMs = None\<rparr>\<rparr>"

text \<open>Lines 250 to 260: forget the latch of another slug, then latch if allowed.\<close>

definition latch :: "cycle \<Rightarrow> price_to_beat_state \<Rightarrow> price_to_beat_state" where
  "latch c st0 =
     (let st = (if marketSlug_in c \<noteq> [] \<and> ptb_slug st0 \<noteq> Some (marketSlug_in c)
                then \<lparr>ptb_slug = Some (marketSlug_in c), ptb_value = None, ptb_setAtMs = None\<rparr>
                else st0)
      in if truthy_str (ptb_slug st) \<and> ptb_value st = None \<and> currentPrice_in c \<noteq> None
         then (if okToLatch (marketStartMs c) (nowMs c)
               then \<lparr>ptb_slug = ptb_slug st, ptb_value = currentPrice_in c,
                     ptb_setAtMs = Some (nowMs c)\<rparr>
               else st)
         else st)"

text \<open>Line 262: the price to beat that the snapshot of this cycle shows.\<close>

definition priceToBeat_of :: "cycle \<Rightarrow> price_to_beat_state \<Rightarrow> real option" where
  "priceToBeat_of c st = (if ptb_slug st = Some (marketSlug_in c) then ptb_value st else None)"

definition make_snapshot :: "cycle \<Rightarrow> real option \<Rightarrow> snapshot" where
  "make_snapshot c ptb =
     (let enter = (rec_action c = ''ENTER'');
          signalEdge = (if enter
                        then (if rec_side c = Some ''UP'' then edgeUp c else edgeDown c)
                        else None)
      in \<lparr>market_slug = marketSlug_in c,
          timing_timeLeftMin = timeLeftMin_in c,
          timing_phase = rec_phase c,
          prices_chainlink = currentPrice_in c,
          prices_priceToBeat = ptb,
          prices_priceDelta = (case (currentPrice_in c, ptb) of
                                 (Some cp, Some p) \<Rightarrow> Some (cp - p) | _ \<Rightarrow> None),
          polymarket_upPrice = marketUp c,
          polymarket_downPrice = marketDown c,
          signal_action = (if enter
                           then ''BUY_'' @ (case rec_side c of Some x \<Rightarrow> x | None \<Rightarrow> ''null'')
                           else ''HOLD''),
          signal_side = (if enter then rec_side c else None),
          signal_strength = (if enter then rec_strength c else None),
          signal_edge = map_option (\<lambda>e. e * 100) signalEdge\<rparr>)"

text \<open>
  One call of \<open>updateData\<close>. Its body is a \<open>try\<close> block whose \<open>catch\<close> logs and returns:
  \<open>None\<close> is a run in which a fetch or a computation threw, \<open>Some c\<close> a run that reached
  the latch with the values \<open>c\<close>. The statements from the latch to the assignment of
  \<open>latestData\<close> read fields and build the object; the assignment is the last statement.
\<close>

definition updateData :: "cycle option \<Rightarrow> server \<Rightarrow> server" where
  "updateData run srv =
     (case run of
        None \<Rightarrow> srv
      | Some c \<Rightarrow>
          (let st = latch c (priceToBeatState srv)
           in \<lparr>latestData = Some (make_snapshot c (priceToBeat_of c st)),
               priceToBeatState = st\<rparr>))"

definition run_cycles :: "cycle option list \<Rightarrow> server \<Rightarrow> server" where
  "run_cycles runs srv = fold updateData runs srv"

text \<open>The cycles that keep tracking slug \<open>S\<close>: failed ones, and those whose market is \<open>S\<close> or missing.\<close>

definition under_slug :: "string \<Rightarrow> cycle option \<Rightarrow> bool" where
  "under_slug S run =
     (case run of None \<Rightarrow> True | Some c \<Rightarrow> marketSlug_in c = S \<or> marketSlug_in c = [])"

text \<open>\<open>GET /api/data\<close>: status 503 with an error text, or the snapshot.\<close>

definition api_data :: "server \<Rightarrow> (nat \<times> string) + snapshot" where
  "api_data srv =
     (case latestData srv of
        None \<Rightarrow> Inl (503, ''Data not ready yet'')
      | Some d \<Rightarrow> Inr d)"

section \<open>Example states\<close>

text \<open>
  A newly constructed engine with the default parameters, switched on, and a snapshot
  with a strong signal for UP in the middle of the window.
\<close>

definition fresh_trader :: paper_trader where
  "fresh_trader =
     \<lparr>startingBalance = 1000, balance = 1000, heap = [], trades = [], positions = [],
      enabled = True, startedAt = 0, stats = initStats, sessionHistory = [],
      lifetimeStats = initLifetimeStats, minEdge = 0.10, maxPositionPct = 0.05,
      cooldownMs = 30000, lastTradeTime = None, currentMarketSlug = None,
      pendingSettlement = None\<rparr>"

definition mid_snapshot :: snapshot where
  "mid_snapshot =
     \<lparr>market_slug = ''btc-updown-15m-1'', timing_timeLeftMin = Some 8, timing_phase = ''MID'',
      prices_chainlink = Some 60050, prices_priceToBeat = Some 60000, prices_priceDelta = Some 50,
      polymarket_upPrice = Some 0.40, polymarket_downPrice = Some 0.60,
      signal_action = ''BUY_UP'', signal_side = Some ''UP'', signal_strength = Some ''STRONG'',
      signal_edge = Some 25\<rparr>"


text \<open>
  An engine holding two open positions of 125 shares bought for 50 each, one on UP and
  one on DOWN, and the last snapshot of their market: price to beat 60000, price 60123.
\<close>

definition up_position :: trade where
  "up_position =
     \<lparr>trade_id = 1700000000000, timestamp = 1700000000000, marketSlug = ''btc-updown-15m-1'',
      side = ''UP'', shares = 125, entryPrice = 0.40, cost = 50,
      priceToBeat = Some 60000, currentPrice = Some 60050, edge = Some 25,
      strength = Some ''STRONG'', phase = ''MID'', timeLeftMin = Some 8, status = OPEN,
      pnl = None, exitPrice = None, settledAt = None, outcome = None, finalPrice = None\<rparr>"

definition down_position :: trade where
  "down_position =
     up_position\<lparr>trade_id := 1700000040000, timestamp := 1700000040000, side := ''DOWN''\<rparr>"

definition two_positions :: paper_trader where
  "two_positions =
     \<lparr>startingBalance = 1000, balance = 900, heap = [up_position, down_position],
      trades = [0, 1], positions = [(1700000000000, 0), (1700000040000, 1)],
      enabled = True, startedAt = 0, stats = initStats, sessionHistory = [],
      lifetimeStats = initLifetimeStats, minEdge = 0.10, maxPositionPct = 0.05,
      cooldownMs = 30000, lastTradeTime = Some 1700000040000,
      currentMarketSlug = Some ''btc-updown-15m-1'', pendingSettlement = None\<rparr>"

definition final_snapshot :: snapshot where
  "final_snapshot =
     \<lparr>market_slug = ''btc-updown-15m-1'', timing_timeLeftMin = Some 0.1, timing_phase = ''LATE'',
      prices_chainlink = Some 60123, prices_priceToBeat = Some 60000,
      prices_priceDelta = Some 123,
      polymarket_upPrice = Some 0.97, polymarket_downPrice = Some 0.03,
      signal_action = ''HOLD'', signal_side = None, signal_strength = None,
      signal_edge = None\<rparr>"

text \<open>
  An engine whose session of three settled trades has left 9.50 of the 1000 it began
  with, and an engine that was started with 5.
\<close>

definition wiped_trader :: paper_trader where
  "wiped_trader =
     fresh_trader
       \<lparr>balance := 9.5,
        stats := \<lparr>totalTrades = 3, wins = 1, losses = 2, totalWon = 75, totalLost = 1065.5,
                  largestWin = 75, largestLoss = 1000, currentStreak = -2, bestStreak = 1,
                  worstStreak = -2\<rparr>,
        lifetimeStats := \<lparr>totalSessions = 1, lifeTotalTrades = 4, lifeTotalWins = 2,
                          lifeTotalLosses = 2, lifeTotalWon = 30, lifeTotalLost = 20,
                          sessionsWon = 1, sessionsLost = 0\<rparr>,
        lastTradeTime := Some 1700000000000\<rparr>"

definition small_trader :: paper_trader where
  "small_trader = fresh_trader\<lparr>startingBalance := 5, balance := 5\<rparr>"

text \<open>
  Cycles for the examples: market \<open>A\<close> seen half a minute before its window starts, a
  cycle in which no market was found, market \<open>A\<close> after its start, and market \<open>B\<close>.
\<close>

definition cycle_A_early :: cycle where
  "cycle_A_early =
     \<lparr>nowMs = 1700000070000, marketSlug_in = ''btc-updown-15m-A'',
      marketStartMs = StartAt 1700000100000, currentPrice_in = Some 60000,
      timeLeftMin_in = Some 15.5, rec_action = ''HOLD'', rec_side = None,
      rec_strength = None, rec_phase = ''EARLY'', edgeUp = Some 0.01, edgeDown = Some (- 0.01),
      marketUp = Some 0.5, marketDown = Some 0.5\<rparr>"

definition cycle_no_market :: cycle where
  "cycle_no_market =
     cycle_A_early\<lparr>nowMs := 1700000080000, marketSlug_in := [], marketStartMs := NoStart,
                    currentPrice_in := Some 60100, timeLeftMin_in := Some 10,
                    edgeUp := None, edgeDown := None, marketUp := None, marketDown := None\<rparr>"

definition cycle_A :: cycle where
  "cycle_A = cycle_A_early\<lparr>nowMs := 1700000130000, currentPrice_in := Some 60200\<rparr>"

definition cycle_A_later :: cycle where
  "cycle_A_later = cycle_A_early\<lparr>nowMs := 1700000190000, currentPrice_in := Some 60300\<rparr>"

definition cycle_B :: cycle where
  "cycle_B =
     cycle_A_early\<lparr>nowMs := 1700001030000, marketSlug_in := ''btc-updown-15m-B'',
                    marketStartMs := StartAt 1700001000000, currentPrice_in := Some 61000\<rparr>"

definition cycle_A_again :: cycle where
  "cycle_A_again = cycle_A_early\<lparr>nowMs := 1700001090000, currentPrice_in := Some 61500\<rparr>"

section \<open>Properties of the paper trading engine\<close>

text \<open>
  C3. Sizing example: with balance 1000, edge 0.25 (the snapshot carries it as 25 per
  cent) above the minimum 0.10, maximum fraction 0.05, strength STRONG, phase MID and
  market price 0.40, the dollar size is 50, the position is 125 shares at a cost of
  50.00, and the balance after the entry is 950.00.
\<close>

theorem sizing_example:
  "position_size mid_snapshot fresh_trader = 50
   \<and> share_count mid_snapshot fresh_trader = 125
   \<and> (case evaluateAndTrade now mid_snapshot fresh_trader of
         (Traded t b, s') \<Rightarrow> shares t = 125 \<and> cost t = 50 \<and> b = 950 \<and> balance s' = 950
       | (NotTraded why, s') \<Rightarrow> False)"
  by (simp add: evaluateAndTrade_def enter_trade_def canTrade_def checkAutoReset_def
      cooldown_left_def fresh_trader_def mid_snapshot_def autoResetThreshold_def Let_def
      position_size_def share_count_def entry_price_def new_trade_def)

subsection \<open>Settlement\<close>

lemma settle_one_fields [simp]:
  "heap (settle_one now oc cp k r s) = (heap s)[r := settle_trade now oc cp (heap s ! r)]"
  "balance (settle_one now oc cp k r s) = balance s + payout oc (heap s ! r)"
  "positions (settle_one now oc cp k r s) = map_delete k (positions s)"
  "stats (settle_one now oc cp k r s) = update_stats (payout oc (heap s ! r) - cost (heap s ! r)) (stats s)"
  "startingBalance (settle_one now oc cp k r s) = startingBalance s"
  "maxPositionPct (settle_one now oc cp k r s) = maxPositionPct s"
  by (simp_all add: settle_one_def Let_def)

lemma settle_loop_heap_length [simp]:
  "length (heap (settle_loop now oc cp ps s)) = length (heap s)"
  by (induction ps arbitrary: s) auto

lemma settle_loop_frame [simp]:
  "startingBalance (settle_loop now oc cp ps s) = startingBalance s"
  "maxPositionPct (settle_loop now oc cp ps s) = maxPositionPct s"
  by (induction ps arbitrary: s) auto

lemma settle_loop_balance:
  assumes "distinct (map snd ps)"
  shows "balance (settle_loop now oc cp ps s) = balance s + paid oc (heap s) ps"
  using assms
proof (induction ps arbitrary: s)
  case Nil
  then show ?case by (simp add: paid_def)
next
  case (Cons p ps)
  obtain k r where p: "p = (k, r)" by (cases p)
  from Cons.prems have fresh: "r \<notin> snd ` set ps" and dist: "distinct (map snd ps)"
    by (auto simp: p)
  show ?case
  proof (cases "status (heap s ! r) = OPEN")
    case False
    then show ?thesis using Cons.IH[OF dist] by (simp add: p paid_def)
  next
    case True
    let ?s1 = "settle_one now oc cp k r s"
    have same: "(heap s)[r := x] ! snd q = heap s ! snd q" if "q \<in> set ps" for q x
      using that fresh by (auto simp: image_iff)
    have "paid oc (heap ?s1) ps = paid oc (heap s) ps"
      unfolding paid_def by (rule arg_cong[where f = sum_list], rule map_cong) (simp_all add: same)
    then show ?thesis using True Cons.IH[OF dist, of ?s1] by (simp add: p paid_def)
  qed
qed

lemma settle_loop_heap:
  assumes "distinct (map snd ps)" "r < length (heap s)"
  shows "heap (settle_loop now oc cp ps s) ! r
           = (if r \<in> snd ` set ps \<and> status (heap s ! r) = OPEN
              then settle_trade now oc cp (heap s ! r) else heap s ! r)"
  using assms
proof (induction ps arbitrary: s)
  case Nil
  then show ?case by simp
next
  case (Cons p ps)
  obtain k r' where p: "p = (k, r')" by (cases p)
  from Cons.prems have fresh: "r' \<notin> snd ` set ps" and dist: "distinct (map snd ps)"
    by (auto simp: p)
  show ?case
  proof (cases "status (heap s ! r') = OPEN")
    case False
    then show ?thesis using Cons.IH[OF dist, of s] Cons.prems(2) by (auto simp: p)
  next
    case True
    let ?s1 = "settle_one now oc cp k r' s"
    have len: "r < length (heap ?s1)" using Cons.prems(2) by simp
    show ?thesis
    proof (cases "r = r'")
      case eq: True
      then have "r \<notin> snd ` set ps" using fresh by simp
      then show ?thesis
        using True Cons.IH[OF dist len] Cons.prems(2) eq by (simp add: p)
    next
      case ne: False
      then show ?thesis
        using True Cons.IH[OF dist len] Cons.prems(2) by (simp add: p)
    qed
  qed
qed

lemma settle_loop_positions:
  assumes "distinct (map snd ps)"
  shows "positions (settle_loop now oc cp ps s)
     = filter (\<lambda>q. fst q \<notin> fst ` {p \<in> set ps. status (heap s ! snd p) = OPEN}) (positions s)"
  using assms
proof (induction ps arbitrary: s)
  case Nil
  then show ?case by simp
next
  case (Cons p ps)
  obtain k r where p: "p = (k, r)" by (cases p)
  from Cons.prems have fresh: "r \<notin> snd ` set ps" and dist: "distinct (map snd ps)"
    by (auto simp: p)
  show ?case
  proof (cases "status (heap s ! r) = OPEN")
    case False
    have "{q \<in> set (p # ps). status (heap s ! snd q) = OPEN}
            = {q \<in> set ps. status (heap s ! snd q) = OPEN}"
      using False by (auto simp: p)
    then show ?thesis using False Cons.IH[OF dist, of s] by (simp add: p)
  next
    case True
    let ?s1 = "settle_one now oc cp k r s"
    have same: "(heap s)[r := x] ! b = heap s ! b" if "(a, b) \<in> set ps" for a b x
      using that fresh by (auto simp: image_iff)
    have "{q \<in> set ps. status (heap ?s1 ! snd q) = OPEN}
            = {q \<in> set ps. status (heap s ! snd q) = OPEN}"
      by (auto simp: same)
    moreover have "fst ` {q \<in> set (p # ps). status (heap s ! snd q) = OPEN}
            = insert k (fst ` {q \<in> set ps. status (heap s ! snd q) = OPEN})"
      using True by (force simp: p)
    ultimately show ?thesis
      using True Cons.IH[OF dist, of ?s1]
      by (simp add: p map_delete_def del: settle_one_fields(1))
  qed
qed

lemma settle_all_positions:
  assumes "distinct (map fst (positions s))" "distinct (map snd (positions s))"
  shows "positions (settle_loop now oc cp (positions s) s)
           = filter (\<lambda>q. status (heap s ! snd q) \<noteq> OPEN) (positions s)"
proof -
  have eq: "fst q \<notin> fst ` {p \<in> set (positions s). status (heap s ! snd p) = OPEN}
          \<longleftrightarrow> status (heap s ! snd q) \<noteq> OPEN" if "q \<in> set (positions s)" for q
  proof -
    have same: "p = q" if "p \<in> set (positions s)" "fst p = fst q" for p
      using that \<open>q \<in> set (positions s)\<close> assms(1) by (metis eq_key_imp_eq_value prod.collapse)
    show ?thesis
    proof
      assume "fst q \<notin> fst ` {p \<in> set (positions s). status (heap s ! snd p) = OPEN}"
      then show "status (heap s ! snd q) \<noteq> OPEN"
        using that by (auto simp: image_iff)
    next
      assume closed: "status (heap s ! snd q) \<noteq> OPEN"
      show "fst q \<notin> fst ` {p \<in> set (positions s). status (heap s ! snd p) = OPEN}"
      proof
        assume "fst q \<in> fst ` {p \<in> set (positions s). status (heap s ! snd p) = OPEN}"
        then obtain p where "p \<in> set (positions s)" "status (heap s ! snd p) = OPEN"
          "fst p = fst q"
          by (auto simp: image_iff)
        with same[of p] closed show False by simp
      qed
    qed
  qed
  show ?thesis
    unfolding settle_loop_positions[OF assms(2)] by (rule filter_cong[OF refl]) (rule eq)
qed

lemma settle_all_none_open:
  assumes "positions_ok s"
  shows "open_positions (settle_loop now oc cp (positions s) s) = []"
proof -
  let ?s' = "settle_loop now oc cp (positions s) s"
  from assms have dk: "distinct (map fst (positions s))" and dr: "distinct (map snd (positions s))"
    and inb: "\<And>q. q \<in> set (positions s) \<Longrightarrow> snd q < length (heap s)"
    by (auto simp: positions_ok_def list_all_iff)
  have "status (heap ?s' ! snd q) \<noteq> OPEN" if "q \<in> set (positions ?s')" for q
  proof -
    from that have q: "q \<in> set (positions s)" "status (heap s ! snd q) \<noteq> OPEN"
      by (simp_all add: settle_all_positions[OF dk dr])
    then show ?thesis using settle_loop_heap[OF dr inb[OF q(1)], of now oc cp] by simp
  qed
  then show ?thesis by (auto simp: open_positions_def filter_empty_conv)
qed

lemma paid_open_positions:
  "paid oc (heap s) (positions s) = sum_list (map (payout oc) (open_positions s))"
  by (simp add: paid_def open_positions_def sum_list_map_filter' comp_def)

text \<open>
  C2. When the final snapshot has both the current reference price and the latched price
  to beat, the outcome is UP exactly when the current price is strictly greater and DOWN
  otherwise; every OPEN position is settled with that outcome, its pnl being its payout
  minus its cost, where the payout is one dollar per share if its side is the outcome
  and nothing otherwise; the balance grows by the sum of these payouts; no position
  stays open. If either price is null, nothing changes.
\<close>

theorem settlement_rule:
  assumes "positions_ok s"
  shows "(prices_chainlink fd = Some cp \<and> prices_priceToBeat fd = Some ptb \<longrightarrow>
            (outcome_of cp ptb = ''UP'' \<longleftrightarrow> cp > ptb)
            \<and> (outcome_of cp ptb = ''DOWN'' \<longleftrightarrow> \<not> cp > ptb)
            \<and> balance (settlePositions now (Some fd) s)
                = balance s + sum_list (map (payout (outcome_of cp ptb)) (open_positions s))
            \<and> (\<forall>p \<in> set (positions s). status (heap s ! snd p) = OPEN \<longrightarrow>
                  heap (settlePositions now (Some fd) s) ! snd p
                    = (heap s ! snd p)
                        \<lparr>status := SETTLED,
                         exitPrice := Some (if side (heap s ! snd p) = outcome_of cp ptb
                                            then 1 else 0),
                         pnl := Some ((if side (heap s ! snd p) = outcome_of cp ptb
                                       then of_int (shares (heap s ! snd p)) * 1 else 0)
                                      - cost (heap s ! snd p)),
                         settledAt := Some now,
                         outcome := Some (outcome_of cp ptb),
                         finalPrice := Some cp\<rparr>)
            \<and> open_positions (settlePositions now (Some fd) s) = [])
         \<and> (prices_chainlink fd = None \<or> prices_priceToBeat fd = None \<longrightarrow>
              settlePositions now (Some fd) s = s)"
proof -
  from assms have dr: "distinct (map snd (positions s))"
    and inb: "\<And>q. q \<in> set (positions s) \<Longrightarrow> snd q < length (heap s)"
    by (auto simp: positions_ok_def list_all_iff)
  have deferred: "settlePositions now (Some fd) s = s"
    if "prices_chainlink fd = None \<or> prices_priceToBeat fd = None"
    using that by (auto simp: settlePositions_def split: option.splits)
  {
    assume prices: "prices_chainlink fd = Some cp \<and> prices_priceToBeat fd = Some ptb"
    let ?oc = "outcome_of cp ptb"
    let ?s' = "settlePositions now (Some fd) s"
    have loop: "?s' = settle_loop now ?oc cp (positions s) s"
      using prices by (cases "positions s") (simp_all add: settlePositions_def)
    have names: "(?oc = ''UP'' \<longleftrightarrow> cp > ptb) \<and> (?oc = ''DOWN'' \<longleftrightarrow> \<not> cp > ptb)"
      by (simp add: outcome_of_def)
    have bal: "balance ?s' = balance s + sum_list (map (payout ?oc) (open_positions s))"
      unfolding loop by (simp add: settle_loop_balance[OF dr] paid_open_positions)
    have each: "heap ?s' ! snd p = settle_trade now ?oc cp (heap s ! snd p)"
      if "p \<in> set (positions s)" "status (heap s ! snd p) = OPEN" for p
      unfolding loop using that settle_loop_heap[OF dr inb[OF that(1)], of now ?oc cp]
      by simp
    have none: "open_positions ?s' = []"
      unfolding loop by (rule settle_all_none_open[OF assms])
    note names bal each none
  }
  with deferred show ?thesis
    by (simp add: settle_trade_def payout_def)
qed

text \<open>
  The example of C2: price to beat 60000 and current price 60123 give UP; the UP
  position of 125 shares bought for 50 is paid 125 and its pnl is +75, the DOWN position
  is paid nothing and its pnl is -50; the balance goes from 900 to 1025.
\<close>

theorem settlement_rule_witness:
  "positions_ok two_positions
   \<and> outcome_of 60123 60000 = ''UP''
   \<and> balance (settlePositions 1700000900000 (Some final_snapshot) two_positions) = 1025
   \<and> payout ''UP'' up_position = 125
   \<and> pnl (heap (settlePositions 1700000900000 (Some final_snapshot) two_positions) ! 0)
        = Some 75
   \<and> payout ''UP'' down_position = 0
   \<and> pnl (heap (settlePositions 1700000900000 (Some final_snapshot) two_positions) ! 1)
        = Some (- 50)
   \<and> open_positions (settlePositions 1700000900000 (Some final_snapshot) two_positions) = []"
proof -
  have ok: "positions_ok two_positions"
    by (simp add: positions_ok_def two_positions_def)
  have prices: "prices_chainlink final_snapshot = Some 60123
                \<and> prices_priceToBeat final_snapshot = Some 60000"
    by (simp add: final_snapshot_def)
  have opens: "open_positions two_positions = [up_position, down_position]"
    by (simp add: open_positions_def two_positions_def up_position_def down_position_def)
  have members: "(1700000000000, 0) \<in> set (positions two_positions)"
    "(1700000040000, 1) \<in> set (positions two_positions)"
    "heap two_positions ! 0 = up_position" "heap two_positions ! 1 = down_position"
    "status up_position = OPEN" "status down_position = OPEN"
    by (simp_all add: two_positions_def up_position_def down_position_def)
  have up: "outcome_of 60123 60000 = ''UP''"
    by (simp add: outcome_of_def)
  from settlement_rule[OF ok, of final_snapshot 60123 60000 1700000900000] prices
  have rule: "balance (settlePositions 1700000900000 (Some final_snapshot) two_positions)
                = balance two_positions
                  + sum_list (map (payout (outcome_of 60123 60000)) (open_positions two_positions))"
    "\<forall>p \<in> set (positions two_positions). status (heap two_positions ! snd p) = OPEN \<longrightarrow>
        pnl (heap (settlePositions 1700000900000 (Some final_snapshot) two_positions) ! snd p)
          = Some ((if side (heap two_positions ! snd p) = outcome_of 60123 60000
                   then of_int (shares (heap two_positions ! snd p)) * 1 else 0)
                  - cost (heap two_positions ! snd p))"
    "open_positions (settlePositions 1700000900000 (Some final_snapshot) two_positions) = []"
    by simp_all
  have "balance (settlePositions 1700000900000 (Some final_snapshot) two_positions) = 1025"
    unfolding rule(1) opens up
    by (simp add: payout_def two_positions_def up_position_def down_position_def)
  moreover have "pnl (heap (settlePositions 1700000900000 (Some final_snapshot) two_positions) ! 0)
        = Some 75"
    using rule(2) members(1,3,5) unfolding up
    by (auto simp: up_position_def)
  moreover have "pnl (heap (settlePositions 1700000900000 (Some final_snapshot) two_positions) ! 1)
        = Some (- 50)"
    using rule(2) members(2,4,6) unfolding up
    by (auto simp: up_position_def down_position_def)
  moreover have "payout ''UP'' up_position = 125" "payout ''UP'' down_position = 0"
    by (simp_all add: payout_def up_position_def down_position_def)
  ultimately show ?thesis using ok up rule(3) by simp
qed

subsection \<open>Gate order\<close>

lemma canTrade_gates:
  "fst (canTrade now s)
     = (case first_refusal (take 3 (gate_sequence now d s)) of
          Some why \<Rightarrow> NotAllowed why
        | None \<Rightarrow> Allowed)"
  by (auto simp: canTrade_def checkAutoReset_def gate_sequence_def split: option.splits)

lemma canTrade_allowed_state:
  "fst (canTrade now s) = Allowed \<Longrightarrow> snd (canTrade now s) = s"
  by (auto simp: canTrade_def checkAutoReset_def split: option.splits if_splits)

lemma first_refusal_append:
  "first_refusal (gs @ hs)
     = (case first_refusal gs of Some why \<Rightarrow> Some why | None \<Rightarrow> first_refusal hs)"
  by (induction gs) auto

lemma signal_gates:
  assumes "canTrade now (s0\<lparr>currentMarketSlug := Some (market_slug d),
                             pendingSettlement := Some d\<rparr>) = (Allowed, s1)"
  shows "(case fst (enter_trade now d s0) of
            NotTraded why \<Rightarrow> first_refusal (drop 3 (gate_sequence now d s1)) = Some why
          | Traded t b \<Rightarrow> first_refusal (drop 3 (gate_sequence now d s1)) = None)"
proof -
  let ?hold = "signal_action d = ''HOLD'' \<or> \<not> truthy_str (signal_side d)"
  let ?weak = "to_number (signal_edge d) / 100 < minEdge s1"
  let ?soft = "signal_strength d \<noteq> Some ''STRONG'' \<and> signal_strength d \<noteq> Some ''GOOD''"
  let ?late = "timing_phase d = ''LATE''"
  let ?small = "share_count d s1 < 1 \<or> position_size d s1 < 1"
  let ?poor = "of_int (share_count d s1) * to_number (entry_price d) > balance s1"
  note defs = enter_trade_def gate_sequence_def entry_price_def
  consider (hold) ?hold
    | (weak) "\<not> ?hold" ?weak
    | (soft) "\<not> ?hold" "\<not> ?weak" ?soft
    | (late) "\<not> ?hold" "\<not> ?weak" "\<not> ?soft" ?late
    | (noprice) "\<not> ?hold" "\<not> ?weak" "\<not> ?soft" "\<not> ?late" "entry_price d = None"
    | (price) p where "\<not> ?hold" "\<not> ?weak" "\<not> ?soft" "\<not> ?late" "entry_price d = Some p"
    by (cases "entry_price d") blast+
  then show ?thesis
  proof cases
    case hold
    then show ?thesis using assms by (simp add: defs)
  next
    case weak
    then show ?thesis using assms by (simp add: defs)
  next
    case soft
    then show ?thesis using assms by (simp add: defs)
  next
    case late
    then show ?thesis using assms by (simp add: defs)
  next
    case noprice
    then show ?thesis using assms by (simp add: defs split: if_splits)
  next
    case price
    have p: "(if signal_side d = Some ''UP'' then polymarket_upPrice d
              else polymarket_downPrice d) = Some p"
      using price(5) by (simp add: entry_price_def)
    consider (bad) "p \<le> 0 \<or> p \<ge> 1"
      | (small) "0 < p" "p < 1" ?small
      | (poor) "0 < p" "p < 1" "\<not> ?small" ?poor
      | (buy) "0 < p" "p < 1" "\<not> ?small" "\<not> ?poor"
      by linarith
    then show ?thesis
    proof cases
      case bad
      then have "\<not> (0 < p \<and> p < 1)" by linarith
      then show ?thesis
        using assms price(1-4) bad by (simp add: enter_trade_def gate_sequence_def p price(5))
    next
      case small
      then show ?thesis
        using assms price(1-4)
        by (simp add: enter_trade_def gate_sequence_def p price(5) Let_def
            share_count_def position_size_def)
    next
      case poor
      then show ?thesis
        using assms price(1-4)
        by (simp add: enter_trade_def gate_sequence_def p price(5) Let_def
            share_count_def position_size_def)
    next
      case buy
      then show ?thesis
        using assms price(1-4)
        by (simp add: enter_trade_def gate_sequence_def p price(5) Let_def
            share_count_def position_size_def)
    qed
  qed
qed

text \<open>The first gate of the list that refuses decides the result.\<close>

lemma first_refusal_decides:
  "(case fst (evaluateAndTrade now d s) of
      NotTraded why \<Rightarrow> first_refusal (gate_sequence now d (gate_state now d s)) = Some why
    | Traded t b \<Rightarrow> first_refusal (gate_sequence now d (gate_state now d s)) = None)"
proof -
  let ?g = "gate_state now d s"
  let ?gs = "gate_sequence now d ?g"
  define s0 where "s0 = (if truthy_str (currentMarketSlug s)
                            \<and> currentMarketSlug s \<noteq> Some (market_slug d)
                         then settlePositions now (pendingSettlement s) s else s)"
  have g: "?g = s0\<lparr>currentMarketSlug := Some (market_slug d), pendingSettlement := Some d\<rparr>"
    by (simp add: gate_state_def s0_def)
  have run: "evaluateAndTrade now d s = enter_trade now d s0"
    by (simp add: evaluateAndTrade_def s0_def)
  have split: "?gs = take 3 ?gs @ drop 3 ?gs"
    by simp
  obtain a s1 where ct: "canTrade now ?g = (a, s1)"
    by (cases "canTrade now ?g")
  show ?thesis
  proof (cases a)
    case Allowed
    then have s1: "s1 = ?g"
      using canTrade_allowed_state[of now ?g] ct by simp
    have "first_refusal (take 3 ?gs) = None"
      using canTrade_gates[of now ?g d] ct Allowed by (simp split: option.splits)
    then have rest: "first_refusal ?gs = first_refusal (drop 3 ?gs)"
      by (subst split, subst first_refusal_append) simp
    have "canTrade now (s0\<lparr>currentMarketSlug := Some (market_slug d),
                           pendingSettlement := Some d\<rparr>) = (Allowed, ?g)"
      using ct Allowed s1 by (simp add: g)
    from signal_gates[OF this] show ?thesis
      by (simp only: run rest)
  next
    case (NotAllowed why)
    then have "first_refusal (take 3 ?gs) = Some why"
      using canTrade_gates[of now ?g d] ct by (simp split: option.splits)
    then have "first_refusal ?gs = Some why"
      by (subst split, subst first_refusal_append) simp
    moreover have "fst (evaluateAndTrade now d s) = NotTraded why"
      using ct NotAllowed unfolding run g[symmetric] by (simp add: enter_trade_def g)
    ultimately show ?thesis by simp
  qed
qed

subsection \<open>Session reset\<close>

lemma reset_fields:
  "balance (reset now nb rec s) = nb"
  "startingBalance (reset now nb rec s) = nb"
  "stats (reset now nb rec s) = initStats"
  "trades (reset now nb rec s) = []"
  "positions (reset now nb rec s) = []"
  "lastTradeTime (reset now nb rec s) = None"
  "enabled (reset now nb rec s) = enabled s"
  "maxPositionPct (reset now nb rec s) = maxPositionPct s"
  "heap (reset now nb rec s) = heap s"
  "sessionHistory (reset now nb rec s)
     = (if rec \<and> totalTrades (stats s) > 0 then sessionHistory s @ [close_session now s]
        else sessionHistory s)"
  "lifetimeStats (reset now nb rec s)
     = (if rec \<and> totalTrades (stats s) > 0 then fold_lifetime s else lifetimeStats s)"
  by (simp_all add: reset_def Let_def)

text \<open>
  C4, as the code has it. On an engine that is switched on, with the balance below the
  auto-reset threshold and no entry in the map of positions, \<open>canTrade\<close> resets the session
  and answers not-allowed with the reason "Session reset - waiting for next signal".
  The reset restores the starting balance and empties trades and statistics. If the
  session had at least one settled trade it is appended to the history, with the flag
  \<open>wiped\<close> set exactly when its ending balance is below the threshold (so set here) and
  with its counts of trades, wins and losses, and the lifetime statistics grow by one
  session and by the session's trades, wins, losses, amount won and amount lost;
  otherwise history and lifetime statistics are unchanged. A further call of
  \<open>canTrade\<close> adds nothing to either.
\<close>

theorem auto_reset_on_canTrade:
  assumes "enabled s" "balance s < autoResetThreshold" "positions s = []"
  shows "canTrade now s = (NotAllowed SessionReset, reset now (startingBalance s) True s)
    \<and> balance (reset now (startingBalance s) True s) = startingBalance s
    \<and> trades (reset now (startingBalance s) True s) = []
    \<and> stats (reset now (startingBalance s) True s) = initStats
    \<and> (if totalTrades (stats s) > 0
        then sessionHistory (reset now (startingBalance s) True s)
               = sessionHistory s @ [close_session now s]
             \<and> lifetimeStats (reset now (startingBalance s) True s) = fold_lifetime s
        else sessionHistory (reset now (startingBalance s) True s) = sessionHistory s
             \<and> lifetimeStats (reset now (startingBalance s) True s) = lifetimeStats s)
    \<and> (wiped (close_session now s2) \<longleftrightarrow> endingBalance (close_session now s2) < autoResetThreshold)
    \<and> endingBalance (close_session now s2) = balance s2
    \<and> wiped (close_session now s)
    \<and> session_trades (close_session now s) = totalTrades (stats s)
    \<and> session_wins (close_session now s) = wins (stats s)
    \<and> session_losses (close_session now s) = losses (stats s)
    \<and> totalSessions (fold_lifetime s) = totalSessions (lifetimeStats s) + 1
    \<and> lifeTotalTrades (fold_lifetime s) = lifeTotalTrades (lifetimeStats s) + totalTrades (stats s)
    \<and> lifeTotalWins (fold_lifetime s) = lifeTotalWins (lifetimeStats s) + wins (stats s)
    \<and> lifeTotalLosses (fold_lifetime s) = lifeTotalLosses (lifetimeStats s) + losses (stats s)
    \<and> lifeTotalWon (fold_lifetime s) = lifeTotalWon (lifetimeStats s) + totalWon (stats s)
    \<and> lifeTotalLost (fold_lifetime s) = lifeTotalLost (lifetimeStats s) + totalLost (stats s)
    \<and> lifetimeStats (snd (canTrade later (reset now (startingBalance s) True s)))
          = lifetimeStats (reset now (startingBalance s) True s)
    \<and> sessionHistory (snd (canTrade later (reset now (startingBalance s) True s)))
          = sessionHistory (reset now (startingBalance s) True s)"
proof -
  let ?s' = "reset now (startingBalance s) True s"
  have call: "canTrade now s = (NotAllowed SessionReset, ?s')"
    using assms by (simp add: canTrade_def checkAutoReset_def)
  have session: "wiped (close_session now s)"
    "wiped (close_session now s2) \<longleftrightarrow> endingBalance (close_session now s2) < autoResetThreshold"
    "endingBalance (close_session now s2) = balance s2"
    "session_trades (close_session now s) = totalTrades (stats s)"
    "session_wins (close_session now s) = wins (stats s)"
    "session_losses (close_session now s) = losses (stats s)"
    using assms(2) by (simp_all add: close_session_def)
  have life: "totalSessions (fold_lifetime s) = totalSessions (lifetimeStats s) + 1"
    "lifeTotalTrades (fold_lifetime s) = lifeTotalTrades (lifetimeStats s) + totalTrades (stats s)"
    "lifeTotalWins (fold_lifetime s) = lifeTotalWins (lifetimeStats s) + wins (stats s)"
    "lifeTotalLosses (fold_lifetime s) = lifeTotalLosses (lifetimeStats s) + losses (stats s)"
    "lifeTotalWon (fold_lifetime s) = lifeTotalWon (lifetimeStats s) + totalWon (stats s)"
    "lifeTotalLost (fold_lifetime s) = lifeTotalLost (lifetimeStats s) + totalLost (stats s)"
    by (simp_all add: fold_lifetime_def Let_def)
  have once: "lifetimeStats (snd (canTrade later ?s')) = lifetimeStats ?s'"
    "sessionHistory (snd (canTrade later ?s')) = sessionHistory ?s'"
    by (simp_all add: canTrade_def checkAutoReset_def reset_fields initStats_def
        split: option.splits)
  show ?thesis
    using call session life once by (simp add: reset_fields)
qed

theorem auto_reset_on_canTrade_witness:
  "enabled wiped_trader \<and> balance wiped_trader < autoResetThreshold
   \<and> positions wiped_trader = []
   \<and> fst (canTrade 1700000900000 wiped_trader) = NotAllowed SessionReset
   \<and> balance (snd (canTrade 1700000900000 wiped_trader)) = 1000
   \<and> map wiped (sessionHistory (snd (canTrade 1700000900000 wiped_trader))) = [True]
   \<and> map session_trades (sessionHistory (snd (canTrade 1700000900000 wiped_trader))) = [3]
   \<and> lifeTotalTrades (lifetimeStats (snd (canTrade 1700000900000 wiped_trader))) = 7
   \<and> lifeTotalWins (lifetimeStats (snd (canTrade 1700000900000 wiped_trader))) = 3
   \<and> lifeTotalLosses (lifetimeStats (snd (canTrade 1700000900000 wiped_trader))) = 4
   \<and> lifeTotalTrades (lifetimeStats (snd (canTrade 1700000930000
         (snd (canTrade 1700000900000 wiped_trader))))) = 7"
proof -
  have pre: "enabled wiped_trader" "balance wiped_trader < autoResetThreshold"
    "positions wiped_trader = []"
    by (simp_all add: wiped_trader_def fresh_trader_def autoResetThreshold_def)
  have had: "totalTrades (stats wiped_trader) > 0" "startingBalance wiped_trader = 1000"
    "sessionHistory wiped_trader = []" "totalTrades (stats wiped_trader) = 3"
    "wins (stats wiped_trader) = 1" "losses (stats wiped_trader) = 2"
    "lifeTotalTrades (lifetimeStats wiped_trader) = 4"
    "lifeTotalWins (lifetimeStats wiped_trader) = 2"
    "lifeTotalLosses (lifetimeStats wiped_trader) = 2"
    by (simp_all add: wiped_trader_def fresh_trader_def)
  from auto_reset_on_canTrade[OF pre, of 1700000900000 wiped_trader 1700000930000] had pre
  show ?thesis by simp
qed

text \<open>
  C4 as worded fails on an engine that is switched off: \<open>canTrade\<close> answers
  "Paper trading disabled" before it looks at the balance, and resets nothing.
\<close>

theorem auto_reset_disabled_counterexample:
  "balance (wiped_trader\<lparr>enabled := False\<rparr>) < autoResetThreshold
   \<and> positions (wiped_trader\<lparr>enabled := False\<rparr>) = []
   \<and> canTrade 1700000900000 (wiped_trader\<lparr>enabled := False\<rparr>)
       = (NotAllowed PaperTradingDisabled, wiped_trader\<lparr>enabled := False\<rparr>)"
  by (simp add: canTrade_def wiped_trader_def fresh_trader_def autoResetThreshold_def)

lemma getStatus_state:
  "snd (getStatus now s) = snd (checkAutoReset now s)"
  by (simp add: getStatus_def Let_def)

text \<open>
  C10, as the code has it. \<open>getStatus\<close> is not read-only: with the balance below the
  auto-reset threshold and no entry in the map of positions, the query resets the
  session before it reports, so the balance reported and left behind is the starting
  balance; the session is appended to the history and folded into the lifetime
  statistics if it had at least one settled trade, and otherwise history and lifetime
  statistics stay as they were. In every other state the query leaves the engine
  unchanged.
\<close>

theorem getStatus_effect:
  "(balance s < autoResetThreshold \<and> positions s = [] \<longrightarrow>
      snd (getStatus now s) = reset now (startingBalance s) True s
      \<and> balance (snd (getStatus now s)) = startingBalance s
      \<and> r_currentBalance (fst (getStatus now s)) = startingBalance s
      \<and> (if totalTrades (stats s) > 0
          then sessionHistory (snd (getStatus now s)) = sessionHistory s @ [close_session now s]
               \<and> lifetimeStats (snd (getStatus now s)) = fold_lifetime s
          else sessionHistory (snd (getStatus now s)) = sessionHistory s
               \<and> lifetimeStats (snd (getStatus now s)) = lifetimeStats s))
   \<and> (\<not> (balance s < autoResetThreshold \<and> positions s = []) \<longrightarrow>
        snd (getStatus now s) = s)"
  by (simp add: getStatus_def checkAutoReset_def Let_def reset_fields)

theorem getStatus_effect_witness:
  "balance wiped_trader < autoResetThreshold \<and> positions wiped_trader = []
   \<and> balance (snd (getStatus 1700000900000 wiped_trader)) = 1000
   \<and> r_currentBalance (fst (getStatus 1700000900000 wiped_trader)) = 1000
   \<and> map session_trades (sessionHistory (snd (getStatus 1700000900000 wiped_trader))) = [3]
   \<and> lifeTotalTrades (lifetimeStats (snd (getStatus 1700000900000 wiped_trader))) = 7
   \<and> \<not> (balance fresh_trader < autoResetThreshold \<and> positions fresh_trader = [])
   \<and> snd (getStatus 1700000900000 fresh_trader) = fresh_trader"
proof -
  have pre: "balance wiped_trader < autoResetThreshold \<and> positions wiped_trader = []"
    by (simp add: wiped_trader_def fresh_trader_def autoResetThreshold_def)
  have had: "totalTrades (stats wiped_trader) > 0" "startingBalance wiped_trader = 1000"
    "sessionHistory wiped_trader = []"
    by (simp_all add: wiped_trader_def fresh_trader_def)
  have other: "\<not> (balance fresh_trader < autoResetThreshold \<and> positions fresh_trader = [])"
    by (simp add: fresh_trader_def autoResetThreshold_def)
  have "session_trades (close_session 1700000900000 wiped_trader) = 3"
    "lifeTotalTrades (fold_lifetime wiped_trader) = 7"
    by (simp_all add: close_session_def fold_lifetime_def wiped_trader_def fresh_trader_def)
  with getStatus_effect[of wiped_trader 1700000900000]
    getStatus_effect[of fresh_trader 1700000900000] pre had other
  show ?thesis by (simp add: reset_fields)
qed

text \<open>
  C10 as worded fails where the session has no settled trade: the status query resets the
  engine, but no session is added to the history and the lifetime statistics stay as
  they were.
\<close>

theorem getStatus_no_trades_counterexample:
  "balance small_trader < autoResetThreshold \<and> positions small_trader = []
   \<and> sessionHistory (snd (getStatus 1700000900000 small_trader)) = sessionHistory small_trader
   \<and> lifetimeStats (snd (getStatus 1700000900000 small_trader)) = lifetimeStats small_trader"
  by (simp add: getStatus_state checkAutoReset_def reset_fields small_trader_def
      fresh_trader_def autoResetThreshold_def initStats_def)

subsection \<open>What an entry does\<close>

text \<open>What \<open>enter_trade\<close> has done when it reports a trade.\<close>

lemma enter_trade_Traded:
  assumes "enter_trade now d s0 = (Traded t b, s')"
  defines "s \<equiv> s0\<lparr>currentMarketSlug := Some (market_slug d), pendingSettlement := Some d\<rparr>"
  shows "\<exists>price. entry_price d = Some price \<and> 0 < price \<and> price < 1
           \<and> canTrade now s = (Allowed, s)
           \<and> 1 \<le> share_count d s \<and> 1 \<le> position_size d s
           \<and> of_int (share_count d s) * price \<le> balance s
           \<and> t = new_trade now d price (share_count d s) (of_int (share_count d s) * price)
           \<and> b = balance s - of_int (share_count d s) * price
           \<and> s' = s\<lparr>balance := balance s - of_int (share_count d s) * price,
                     lastTradeTime := Some now,
                     heap := heap s @ [t],
                     trades := trades s @ [length (heap s)],
                     positions := map_set now (length (heap s)) (positions s)\<rparr>"
proof -
  obtain a s1 where ct: "canTrade now s = (a, s1)"
    by (cases "canTrade now s")
  have a: "a = Allowed"
    using assms(1) ct by (cases a) (simp_all add: enter_trade_def s_def)
  then have s1: "s1 = s"
    using canTrade_allowed_state[of now s] ct by simp
  have ct': "canTrade now (s0\<lparr>currentMarketSlug := Some (market_slug d),
                                pendingSettlement := Some d\<rparr>) = (Allowed, s)"
    using ct a s1 by (simp add: s_def)
  obtain price where p: "entry_price d = Some price"
    using assms(1) ct'
    by (cases "entry_price d")
      (simp_all add: enter_trade_def entry_price_def Let_def split: if_splits)
  then have p': "(if signal_side d = Some ''UP'' then polymarket_upPrice d
                  else polymarket_downPrice d) = Some price"
    by (simp add: entry_price_def)
  from assms(1) show ?thesis
    unfolding enter_trade_def ct' p' Let_def
    by (auto simp: position_size_def share_count_def p ct a s1 split: if_splits)
qed

lemma canTrade_state:
  "snd (canTrade now s) = s \<or> snd (canTrade now s) = reset now (startingBalance s) True s"
  by (simp add: canTrade_def checkAutoReset_def split: option.splits)

lemma enter_trade_NotTraded:
  assumes "enter_trade now d s0 = (NotTraded why, s')"
  defines "s \<equiv> s0\<lparr>currentMarketSlug := Some (market_slug d), pendingSettlement := Some d\<rparr>"
  shows "s' = snd (canTrade now s)"
proof -
  obtain a s1 where ct: "canTrade now s = (a, s1)"
    by (cases "canTrade now s")
  then have ct': "canTrade now (s0\<lparr>currentMarketSlug := Some (market_slug d),
                                     pendingSettlement := Some d\<rparr>) = (a, s1)"
    by (simp add: s_def)
  show ?thesis
  proof (cases a)
    case Allowed
    from assms(1) show ?thesis
      unfolding enter_trade_def ct' Allowed Let_def
      by (simp add: ct split: if_splits option.splits)
  next
    case (NotAllowed x)
    from assms(1) show ?thesis
      unfolding enter_trade_def ct' NotAllowed by (simp add: ct)
  qed
qed

lemma map_set_keys:
  "map fst (map_set k v ps) = (if k \<in> fst ` set ps then map fst ps else map fst ps @ [k])"
  by (induction ps) force+


lemma map_set_entries:
  "set (map_set k v ps) \<subseteq> insert (k, v) (set ps)"
  by (induction ps) (auto split: if_splits)

lemma map_set_distinct_keys:
  "distinct (map fst ps) \<Longrightarrow> distinct (map fst (map_set k v ps))"
  by (simp add: map_set_keys)

lemma map_set_distinct_values:
  "distinct (map snd ps) \<Longrightarrow> v \<notin> snd ` set ps \<Longrightarrow> distinct (map snd (map_set k v ps))"
proof (induction ps)
  case Nil
  then show ?case by simp
next
  case (Cons p ps)
  obtain a b where p: "p = (a, b)" by (cases p)
  show ?case
  proof (cases "a = k")
    case True
    then show ?thesis using Cons.prems by (simp add: p)
  next
    case False
    have "b \<notin> snd ` set (map_set k v ps)"
    proof
      assume "b \<in> snd ` set (map_set k v ps)"
      then obtain q where "q \<in> set (map_set k v ps)" "snd q = b" by auto
      with map_set_entries[of k v ps] have "q = (k, v) \<or> q \<in> set ps" by auto
      with \<open>snd q = b\<close> Cons.prems show False by (auto simp: p)
    qed
    then show ?thesis using False Cons by (simp add: p)
  qed
qed

lemma positions_ok_buy:
  assumes "positions_ok s"
  shows "positions_ok (s\<lparr>balance := b, lastTradeTime := l, heap := heap s @ [t],
                          trades := ts,
                          positions := map_set k (length (heap s)) (positions s)\<rparr>)"
proof -
  from assms have dk: "distinct (map fst (positions s))" and dr: "distinct (map snd (positions s))"
    and inb: "\<And>q. q \<in> set (positions s) \<Longrightarrow> snd q < length (heap s)"
    by (auto simp: positions_ok_def list_all_iff)
  have fresh: "length (heap s) \<notin> snd ` set (positions s)"
    using inb by fastforce
  have "snd q < Suc (length (heap s))"
    if "q \<in> set (map_set k (length (heap s)) (positions s))" for q
    using that map_set_entries[of k "length (heap s)" "positions s"] inb by fastforce
  then show ?thesis
    using map_set_distinct_keys[OF dk] map_set_distinct_values[OF dr fresh]
    by (simp add: positions_ok_def list_all_iff)
qed

subsection \<open>Conservation of the bankroll\<close>



lemma positions_ok_settle:
  assumes "positions_ok s"
  shows "positions_ok (settlePositions now fd s)"
proof -
  from assms have dk: "distinct (map fst (positions s))" and dr: "distinct (map snd (positions s))"
    by (auto simp: positions_ok_def)
  have "positions_ok (settle_loop now oc cp (positions s) s)" for oc cp
    using assms
    by (simp add: positions_ok_def settle_all_positions[OF dk dr] distinct_map_filter
        list_all_iff)
  with assms show ?thesis
    by (simp add: settlePositions_def split: option.splits)
qed


lemma positions_ok_frame:
  "positions_ok (s\<lparr>currentMarketSlug := x, pendingSettlement := y\<rparr>) = positions_ok s"
  by (simp add: positions_ok_def)

lemma positions_ok_canTrade:
  assumes "positions_ok s"
  shows "positions_ok (snd (canTrade now s))"
  using canTrade_state[of now s] assms by (auto simp: positions_ok_def reset_fields)

lemma positions_ok_enter:
  assumes "positions_ok s0"
  shows "positions_ok (snd (enter_trade now d s0))"
proof -
  let ?s = "s0\<lparr>currentMarketSlug := Some (market_slug d), pendingSettlement := Some d\<rparr>"
  have s: "positions_ok ?s"
    using assms by (simp add: positions_ok_frame)
  obtain res s' where run: "enter_trade now d s0 = (res, s')"
    by (cases "enter_trade now d s0")
  show ?thesis
  proof (cases res)
    case (NotTraded why)
    with run enter_trade_NotTraded[of now d s0 why s'] positions_ok_canTrade[OF s]
    show ?thesis by simp
  next
    case (Traded t b)
    with run enter_trade_Traded[of now d s0 t b s'] obtain c
      where "s' = ?s\<lparr>balance := balance ?s - c,
                     lastTradeTime := Some now,
                     heap := heap ?s @ [t],
                     trades := trades ?s @ [length (heap ?s)],
                     positions := map_set now (length (heap ?s)) (positions ?s)\<rparr>"
      by blast
    then show ?thesis
      using run positions_ok_buy[OF s] by simp
  qed
qed

lemma positions_ok_evaluate:
  assumes "positions_ok s"
  shows "positions_ok (snd (evaluateAndTrade now d s))"
  using assms positions_ok_settle[OF assms]
  by (simp add: evaluateAndTrade_def positions_ok_enter)

text \<open>Every sequence of calls keeps the representation invariant.\<close>

lemma positions_ok_run:
  assumes "positions_ok s"
  shows "positions_ok (run_calls cs s)"
  using assms
proof (induction cs arbitrary: s)
  case Nil
  then show ?case by (simp add: run_calls_def)
next
  case (Cons c cs)
  have "positions_ok (apply_call c s)"
    using Cons.prems by (cases c) (simp_all add: positions_ok_evaluate positions_ok_settle)
  from Cons.IH[OF this] show ?case by (simp add: run_calls_def)
qed


lemma evaluate_is_enter:
  "evaluateAndTrade now d s = (res, s') \<Longrightarrow>
     \<exists>s0. enter_trade now d s0 = (res, s')
        \<and> gate_state now d s
             = s0\<lparr>currentMarketSlug := Some (market_slug d), pendingSettlement := Some d\<rparr>"
  by (auto simp: evaluateAndTrade_def gate_state_def)




subsection \<open>Gate order: result and state\<close>

lemma canTrade_state_by_reason:
  assumes "first_refusal (gate_sequence now d s) = Some why"
  shows "snd (canTrade now s)
           = (if why = SessionReset then reset now (startingBalance s) True s else s)"
  using assms
  by (auto simp: gate_sequence_def canTrade_def checkAutoReset_def
      split: if_splits option.splits)

text \<open>
  C6. The result of \<open>evaluateAndTrade\<close> is decided by the first gate that refuses, in the
  order disabled, balance below the auto-reset threshold (with a session reset when no
  position is open), cooldown, no actionable signal, edge below the minimum, strength
  neither GOOD nor STRONG, LATE phase, price not strictly inside (0,1), size below one
  share or one dollar, insufficient balance. A refusal is returned as the value
  \<open>NotTraded why\<close> with the reason of that gate, and leaves the engine as the gates found
  it, except that the session-reset refusal leaves it reset; a trade is made exactly when
  no gate refuses. The gates are read on the state left by the settlement of the
  previous market.
\<close>

theorem gate_order:
  "(case evaluateAndTrade now d s of
      (NotTraded why, s') \<Rightarrow>
        first_refusal (gate_sequence now d (gate_state now d s)) = Some why
        \<and> s' = (if why = SessionReset
                then reset now (startingBalance (gate_state now d s)) True (gate_state now d s)
                else gate_state now d s)
    | (Traded t b, s') \<Rightarrow>
        first_refusal (gate_sequence now d (gate_state now d s)) = None)"
proof (cases "evaluateAndTrade now d s")
  case (Pair res s')
  show ?thesis
  proof (cases res)
    case (Traded t b)
    with Pair first_refusal_decides[of now d s] show ?thesis by simp
  next
    case (NotTraded why)
    with Pair first_refusal_decides[of now d s]
    have first: "first_refusal (gate_sequence now d (gate_state now d s)) = Some why"
      by simp
    from evaluate_is_enter[OF Pair] obtain s0
      where enter: "enter_trade now d s0 = (res, s')"
        and g: "gate_state now d s
                  = s0\<lparr>currentMarketSlug := Some (market_slug d), pendingSettlement := Some d\<rparr>"
      by blast
    from enter_trade_NotTraded[OF enter[unfolded NotTraded]]
    have "s' = snd (canTrade now (gate_state now d s))"
      by (simp add: g)
    with canTrade_state_by_reason[OF first] first Pair NotTraded show ?thesis
      by simp
  qed
qed

text \<open>
  Instances in which two gates refuse at once: the earlier one gives the reason. In the
  second the session is reset and the balance is back at 1000.
\<close>

lemma refused:
  assumes "case r of (NotTraded why, s') \<Rightarrow> x = Some why \<and> s' = f why
                   | (Traded t b, s') \<Rightarrow> x = None"
    and "x = Some why"
  shows "fst r = NotTraded why \<and> snd r = f why"
  using assms by (cases r; cases "fst r") auto

theorem gate_order_witness:
  "fst (evaluateAndTrade 1700000000000 mid_snapshot (fresh_trader\<lparr>enabled := False, balance := 5\<rparr>))
     = NotTraded PaperTradingDisabled
   \<and> fst (evaluateAndTrade 1700000900000 (mid_snapshot\<lparr>signal_action := ''HOLD''\<rparr>) wiped_trader)
     = NotTraded SessionReset
   \<and> balance (snd (evaluateAndTrade 1700000900000 (mid_snapshot\<lparr>signal_action := ''HOLD''\<rparr>)
                       wiped_trader)) = 1000
   \<and> fst (evaluateAndTrade 1700000000000 (mid_snapshot\<lparr>signal_action := ''HOLD''\<rparr>)
            (fresh_trader\<lparr>lastTradeTime := Some 1699999999000\<rparr>))
     = NotTraded (Cooldown 29)
   \<and> fst (evaluateAndTrade 1700000000000
            (mid_snapshot\<lparr>signal_edge := Some 5, timing_phase := ''LATE''\<rparr>) fresh_trader)
     = NotTraded (EdgeBelowMin (Some 5) 10)
   \<and> fst (evaluateAndTrade 1700000000000
            (mid_snapshot\<lparr>timing_phase := ''LATE'', polymarket_upPrice := Some 1\<rparr>) fresh_trader)
     = NotTraded TooLateInWindow"
proof -
  have "first_refusal (gate_sequence 1700000000000 mid_snapshot
          (gate_state 1700000000000 mid_snapshot (fresh_trader\<lparr>enabled := False, balance := 5\<rparr>)))
        = Some PaperTradingDisabled"
    by (simp add: gate_sequence_def gate_state_def fresh_trader_def)
  from refused[OF gate_order this]
  have 1: "fst (evaluateAndTrade 1700000000000 mid_snapshot
                 (fresh_trader\<lparr>enabled := False, balance := 5\<rparr>))
             = NotTraded PaperTradingDisabled"
    by simp
  let ?hold = "mid_snapshot\<lparr>signal_action := ''HOLD''\<rparr>"
  have "first_refusal (gate_sequence 1700000900000 ?hold
          (gate_state 1700000900000 ?hold wiped_trader))
        = Some SessionReset"
    by (simp add: gate_sequence_def gate_state_def wiped_trader_def fresh_trader_def
        autoResetThreshold_def)
  from refused[OF gate_order this]
  have 2: "fst (evaluateAndTrade 1700000900000 ?hold wiped_trader) = NotTraded SessionReset"
    "balance (snd (evaluateAndTrade 1700000900000 ?hold wiped_trader)) = 1000"
    by (simp_all add: reset_fields gate_state_def wiped_trader_def fresh_trader_def)
  have "first_refusal (gate_sequence 1700000000000 ?hold
          (gate_state 1700000000000 ?hold
             (fresh_trader\<lparr>lastTradeTime := Some 1699999999000\<rparr>)))
        = Some (Cooldown 29)"
    by (simp add: gate_sequence_def gate_state_def fresh_trader_def cooldown_left_def
        autoResetThreshold_def)
  from refused[OF gate_order this]
  have 3: "fst (evaluateAndTrade 1700000000000 ?hold
            (fresh_trader\<lparr>lastTradeTime := Some 1699999999000\<rparr>))
     = NotTraded (Cooldown 29)"
    by simp
  have "first_refusal (gate_sequence 1700000000000
          (mid_snapshot\<lparr>signal_edge := Some 5, timing_phase := ''LATE''\<rparr>)
          (gate_state 1700000000000
             (mid_snapshot\<lparr>signal_edge := Some 5, timing_phase := ''LATE''\<rparr>) fresh_trader))
        = Some (EdgeBelowMin (Some 5) 10)"
    by (simp add: gate_sequence_def gate_state_def fresh_trader_def cooldown_left_def
        autoResetThreshold_def mid_snapshot_def)
  from refused[OF gate_order this]
  have 4: "fst (evaluateAndTrade 1700000000000
            (mid_snapshot\<lparr>signal_edge := Some 5, timing_phase := ''LATE''\<rparr>) fresh_trader)
     = NotTraded (EdgeBelowMin (Some 5) 10)"
    by simp
  have "first_refusal (gate_sequence 1700000000000
          (mid_snapshot\<lparr>timing_phase := ''LATE'', polymarket_upPrice := Some 1\<rparr>)
          (gate_state 1700000000000
             (mid_snapshot\<lparr>timing_phase := ''LATE'', polymarket_upPrice := Some 1\<rparr>) fresh_trader))
        = Some TooLateInWindow"
    by (simp add: gate_sequence_def gate_state_def fresh_trader_def cooldown_left_def
        autoResetThreshold_def mid_snapshot_def)
  from refused[OF gate_order this]
  have 5: "fst (evaluateAndTrade 1700000000000
            (mid_snapshot\<lparr>timing_phase := ''LATE'', polymarket_upPrice := Some 1\<rparr>) fresh_trader)
     = NotTraded TooLateInWindow"
    by simp
  from 1 2 3 4 5 show ?thesis by simp
qed

section \<open>Properties of the update cycle\<close>

subsection \<open>Crossing counter\<close>

text \<open>The loop adds one for every bar of its range at which there is a cross.\<close>

lemma cross_loop_count:
  "cross_loop c v i acc = acc + length (filter (crosses_at c v) [i ..< length c])"
proof (induction c v i acc rule: cross_loop.induct)
  case (1 c v i acc)
  show ?case
  proof (cases "i < length c")
    case False
    then show ?thesis by (simp add: cross_loop.simps[of c v i acc])
  next
    case True
    let ?prev = "diff_at c v (i - 1)" and ?cur = "diff_at c v i"
    let ?opp = "(positive ?prev \<and> negative ?cur) \<or> (negative ?prev \<and> positive ?cur)"
    have upt: "[i ..< length c] = i # [i + 1 ..< length c]"
      using True by (simp add: upt_conv_Cons)
    have at: "crosses_at c v i \<longleftrightarrow> ?opp"
      by (simp add: crosses_at_def)
    consider (zero) "?prev = Some 0" | (cross) "?prev \<noteq> Some 0" "?opp"
      | (none) "?prev \<noteq> Some 0" "\<not> ?opp"
      by blast
    then show ?thesis
    proof cases
      case zero
      then have "\<not> ?opp" by simp
      moreover have "cross_loop c v i acc = cross_loop c v (i + 1) acc"
        using True zero by (subst cross_loop.simps) (simp add: Let_def)
      moreover have "cross_loop c v (i + 1) acc
                       = acc + length (filter (crosses_at c v) [i + 1 ..< length c])"
        using "1.IH"(1)[OF True refl refl zero] .
      ultimately show ?thesis by (simp only: upt at filter.simps if_False)
    next
      case cross
      have "cross_loop c v i acc = cross_loop c v (i + 1) (acc + 1)"
        using True cross by (subst cross_loop.simps) (auto simp: Let_def)
      moreover have "cross_loop c v (i + 1) (acc + 1)
                       = acc + 1 + length (filter (crosses_at c v) [i + 1 ..< length c])"
        using "1.IH"(2)[OF True refl refl cross] .
      ultimately show ?thesis using cross(2) by (simp only: upt at filter.simps if_True) simp
    next
      case none
      have "cross_loop c v i acc = cross_loop c v (i + 1) acc"
        using True none by (subst cross_loop.simps) (auto simp: Let_def)
      moreover have "cross_loop c v (i + 1) acc
                       = acc + length (filter (crosses_at c v) [i + 1 ..< length c])"
        using "1.IH"(3)[OF True refl refl none] .
      ultimately show ?thesis using none(2) by (simp only: upt at filter.simps if_False)
    qed
  qed
qed

lemma filter_single:
  assumes "a \<le> k" "k < b" "\<And>i. a \<le> i \<Longrightarrow> i < b \<Longrightarrow> P i \<longleftrightarrow> i = k"
  shows "length (filter P [a ..< b]) = 1"
proof -
  have "{x. P x} \<inter> set [a ..< b] = {k}"
    using assms by auto
  then show ?thesis
    by (simp add: distinct_length_filter)
qed

lemma filter_none:
  assumes "\<And>i. a \<le> i \<Longrightarrow> i < b \<Longrightarrow> \<not> P i"
  shows "length (filter P [a ..< b]) = 0"
  using assms by (simp add: filter_empty_conv)

lemma count_by_pairs:
  assumes "n \<le> length c" "n \<le> length v"
  shows "countVwapCrosses c v n
           = Some (length (filter (crosses_at c v) [length c - n + 1 ..< length c]))"
  using assms by (simp add: countVwapCrosses_def cross_loop_count)

text \<open>
  C7, as the code has it. The counter is null exactly when one of the series has fewer
  than \<open>N\<close> bars. Otherwise it counts the bars of the window, after the first, at which
  the difference close - vwap and the difference one bar earlier have strictly opposite
  signs. Hence it counts nothing when no difference of the window is negative, or none is
  positive; and it counts exactly one when the window is a run of positive differences
  followed by a run of negative ones, or the reverse, with bar \<open>k\<close> the first of the
  second run.
\<close>

theorem crossing_counter:
  "(countVwapCrosses c v n = None \<longleftrightarrow> length c < n \<or> length v < n)
   \<and> (n \<le> length c \<and> n \<le> length v \<longrightarrow>
        countVwapCrosses c v n
          = Some (length (filter (crosses_at c v) [length c - n + 1 ..< length c]))
        \<and> (list_all (\<lambda>i. \<not> negative (diff_at c v i)) [length c - n ..< length c]
             \<longrightarrow> countVwapCrosses c v n = Some 0)
        \<and> (list_all (\<lambda>i. \<not> positive (diff_at c v i)) [length c - n ..< length c]
             \<longrightarrow> countVwapCrosses c v n = Some 0)
        \<and> (length c - n < k \<and> k < length c
             \<and> list_all (\<lambda>i. positive (diff_at c v i)) [length c - n ..< k]
             \<and> list_all (\<lambda>i. negative (diff_at c v i)) [k ..< length c]
             \<longrightarrow> countVwapCrosses c v n = Some 1)
        \<and> (length c - n < k \<and> k < length c
             \<and> list_all (\<lambda>i. negative (diff_at c v i)) [length c - n ..< k]
             \<and> list_all (\<lambda>i. positive (diff_at c v i)) [k ..< length c]
             \<longrightarrow> countVwapCrosses c v n = Some 1))"
proof -
  let ?a = "length c - n" and ?b = "length c"
  let ?d = "diff_at c v"
  have null: "countVwapCrosses c v n = None \<longleftrightarrow> length c < n \<or> length v < n"
    by (simp add: countVwapCrosses_def)
  have sign: "positive x \<Longrightarrow> \<not> negative x" for x
    by (cases x) auto
  {
    assume len: "n \<le> length c \<and> n \<le> length v"
    then have pairs: "countVwapCrosses c v n
           = Some (length (filter (crosses_at c v) [?a + 1 ..< ?b]))"
      by (simp add: count_by_pairs)
    have noneg: "countVwapCrosses c v n = Some 0"
      if "list_all (\<lambda>i. \<not> negative (?d i)) [?a ..< ?b]"
    proof -
      have all: "\<not> negative (?d j)" if "?a \<le> j" "j < ?b" for j
        using that \<open>list_all _ _\<close> by (simp add: list_all_iff)
      have "\<not> crosses_at c v i" if "?a + 1 \<le> i" "i < ?b" for i
        using all[of "i - 1"] all[of i] that by (simp add: crosses_at_def)
      then show ?thesis using pairs by (simp add: filter_none)
    qed
    have nopos: "countVwapCrosses c v n = Some 0"
      if "list_all (\<lambda>i. \<not> positive (?d i)) [?a ..< ?b]"
    proof -
      have all: "\<not> positive (?d j)" if "?a \<le> j" "j < ?b" for j
        using that \<open>list_all _ _\<close> by (simp add: list_all_iff)
      have "\<not> crosses_at c v i" if "?a + 1 \<le> i" "i < ?b" for i
        using all[of "i - 1"] all[of i] that by (simp add: crosses_at_def)
      then show ?thesis using pairs by (simp add: filter_none)
    qed
    have once: "countVwapCrosses c v n = Some 1"
      if k: "?a < k" "k < ?b"
        and runs: "(list_all (\<lambda>i. positive (?d i)) [?a ..< k]
                     \<and> list_all (\<lambda>i. negative (?d i)) [k ..< ?b])
                   \<or> (list_all (\<lambda>i. negative (?d i)) [?a ..< k]
                     \<and> list_all (\<lambda>i. positive (?d i)) [k ..< ?b])"
    proof -
      from runs have before: "(\<forall>j. ?a \<le> j \<and> j < k \<longrightarrow> positive (?d j))
                            \<or> (\<forall>j. ?a \<le> j \<and> j < k \<longrightarrow> negative (?d j))"
        and after: "(\<forall>j. k \<le> j \<and> j < ?b \<longrightarrow> positive (?d j))
                            \<or> (\<forall>j. k \<le> j \<and> j < ?b \<longrightarrow> negative (?d j))"
        and opposite: "\<And>i j. ?a \<le> i \<Longrightarrow> i < k \<Longrightarrow> k \<le> j \<Longrightarrow> j < ?b \<Longrightarrow>
                          (positive (?d i) \<and> negative (?d j)) \<or> (negative (?d i) \<and> positive (?d j))"
        by (auto simp: list_all_iff)
      have "crosses_at c v i \<longleftrightarrow> i = k" if i: "?a + 1 \<le> i" "i < ?b" for i
      proof -
        consider (lt) "i < k" | (eq) "i = k" | (gt) "k < i" by linarith
        then show ?thesis
        proof cases
          case lt
          then have "?a \<le> i - 1 \<and> i - 1 < k" "?a \<le> i \<and> i < k" using i by auto
          with before have "(positive (?d (i - 1)) \<and> positive (?d i))
                            \<or> (negative (?d (i - 1)) \<and> negative (?d i))"
            by blast
          with lt show ?thesis using sign by (auto simp: crosses_at_def)
        next
          case eq
          then have "?a \<le> i - 1" "i - 1 < k" "k \<le> i" "i < ?b" using i k by auto
          from opposite[OF this] show ?thesis using eq by (simp add: crosses_at_def)
        next
          case gt
          then have "k \<le> i - 1 \<and> i - 1 < ?b" "k \<le> i \<and> i < ?b" using i by auto
          with after have "(positive (?d (i - 1)) \<and> positive (?d i))
                            \<or> (negative (?d (i - 1)) \<and> negative (?d i))"
            by blast
          with gt show ?thesis using sign by (auto simp: crosses_at_def)
        qed
      qed
      then have "length (filter (crosses_at c v) [?a + 1 ..< ?b]) = 1"
        using k by (intro filter_single[of _ k]) auto
      then show ?thesis using pairs by simp
    qed
    note pairs noneg nopos once
  }
  then show ?thesis using null by blast
qed

theorem crossing_counter_witness:
  "countVwapCrosses [5, 3, 2, 1] [4, 4] 3 = None
   \<and> countVwapCrosses [5, 6, 4, 7] [4, 4, 4, 4] 3 = Some 0
   \<and> countVwapCrosses [1, 3, 2, 1] [4, 4, 4, 4] 3 = Some 0
   \<and> countVwapCrosses [0, 6, 5, 3, 2] [4, 4, 4, 4, 4] 4 = Some 1
   \<and> countVwapCrosses [0, 2, 3, 5, 6] [4, 4, 4, 4, 4] 4 = Some 1"
proof -
  have short: "length [4, 4 :: real] < 3"
    by simp
  have len3: "3 \<le> length [5, 6, 4, 7 :: real] \<and> 3 \<le> length [4, 4, 4, 4 :: real]"
    "3 \<le> length [1, 3, 2, 1 :: real] \<and> 3 \<le> length [4, 4, 4, 4 :: real]"
    by simp_all
  have len4: "4 \<le> length [0, 6, 5, 3, 2 :: real] \<and> 4 \<le> length [4, 4, 4, 4, 4 :: real]"
    "4 \<le> length [0, 2, 3, 5, 6 :: real] \<and> 4 \<le> length [4, 4, 4, 4, 4 :: real]"
    by simp_all
  have above: "list_all (\<lambda>i. \<not> negative (diff_at [5, 6, 4, 7] [4, 4, 4, 4] i))
                 [length [5, 6, 4, 7 :: real] - 3 ..< length [5, 6, 4, 7 :: real]]"
    by (simp add: diff_at_def upt_conv_Cons)
  have below: "list_all (\<lambda>i. \<not> positive (diff_at [1, 3, 2, 1] [4, 4, 4, 4] i))
                 [length [1, 3, 2, 1 :: real] - 3 ..< length [1, 3, 2, 1 :: real]]"
    by (simp add: diff_at_def upt_conv_Cons)
  have down: "length [0, 6, 5, 3, 2 :: real] - 4 < 3 \<and> 3 < length [0, 6, 5, 3, 2 :: real]
      \<and> list_all (\<lambda>i. positive (diff_at [0, 6, 5, 3, 2] [4, 4, 4, 4, 4] i))
           [length [0, 6, 5, 3, 2 :: real] - 4 ..< 3]
      \<and> list_all (\<lambda>i. negative (diff_at [0, 6, 5, 3, 2] [4, 4, 4, 4, 4] i))
           [3 ..< length [0, 6, 5, 3, 2 :: real]]"
    by (simp add: diff_at_def upt_conv_Cons)
  have up: "length [0, 2, 3, 5, 6 :: real] - 4 < 3 \<and> 3 < length [0, 2, 3, 5, 6 :: real]
      \<and> list_all (\<lambda>i. negative (diff_at [0, 2, 3, 5, 6] [4, 4, 4, 4, 4] i))
           [length [0, 2, 3, 5, 6 :: real] - 4 ..< 3]
      \<and> list_all (\<lambda>i. positive (diff_at [0, 2, 3, 5, 6] [4, 4, 4, 4, 4] i))
           [3 ..< length [0, 2, 3, 5, 6 :: real]]"
    by (simp add: diff_at_def upt_conv_Cons)
  have "countVwapCrosses [5, 3, 2, 1] [4, 4] 3 = None"
    using crossing_counter [of "[5, 3, 2, 1]" "[4, 4]" 3 0] short by blast
  moreover have "countVwapCrosses [5, 6, 4, 7] [4, 4, 4, 4] 3 = Some 0"
    using crossing_counter [of "[5, 6, 4, 7]" "[4, 4, 4, 4]" 3 0] len3(1) above by blast
  moreover have "countVwapCrosses [1, 3, 2, 1] [4, 4, 4, 4] 3 = Some 0"
    using crossing_counter [of "[1, 3, 2, 1]" "[4, 4, 4, 4]" 3 0] len3(2) below by blast
  moreover have "countVwapCrosses [0, 6, 5, 3, 2] [4, 4, 4, 4, 4] 4 = Some 1"
    using crossing_counter [of "[0, 6, 5, 3, 2]" "[4, 4, 4, 4, 4]" 4 3] len4(1) down by blast
  moreover have "countVwapCrosses [0, 2, 3, 5, 6] [4, 4, 4, 4, 4] 4 = Some 1"
    using crossing_counter [of "[0, 2, 3, 5, 6]" "[4, 4, 4, 4, 4]" 4 3] len4(2) up by blast
  ultimately show ?thesis by blast
qed

text \<open>
  C7 as worded fails: the differences 1, 0, -1 go from positive through an exact zero
  to negative. The specification counts one cross; the code compares neighbours only,
  finds no cross from 1 to 0, skips the pair that starts at the zero, and counts none.
\<close>

theorem crossing_counter_zero_counterexample:
  "countVwapCrosses [1, 0, -1] [0, 0, 0] 3 = Some 0
   \<and> spec_crossing_counter [1, 0, -1] [0, 0, 0] 3 = Some 1"
  by (simp add: countVwapCrosses_def spec_crossing_counter_def cross_loop.simps diff_at_def
      Let_def upt_conv_Cons)

subsection \<open>The published snapshot\<close>

lemma run_cycles_append:
  "run_cycles (xs @ ys) srv = run_cycles ys (run_cycles xs srv)"
  by (simp add: run_cycles_def)

lemma run_cycles_Cons:
  "run_cycles (x # xs) srv = run_cycles xs (updateData x srv)"
  by (simp add: run_cycles_def)

lemma run_cycles_Nil:
  "run_cycles [] srv = srv"
  by (simp add: run_cycles_def)

lemma run_cycles_failed:
  "list_all (\<lambda>r. r = None) runs \<Longrightarrow> run_cycles runs srv = srv"
  by (induction runs arbitrary: srv) (simp_all add: run_cycles_Nil run_cycles_Cons updateData_def)

lemma published_stays:
  "latestData srv \<noteq> None \<Longrightarrow> latestData (run_cycles runs srv) \<noteq> None"
  by (induction runs arbitrary: srv)
    (simp_all add: run_cycles_Nil run_cycles_Cons updateData_def Let_def split: option.splits)

lemma published_after_success:
  "\<not> list_all (\<lambda>r. r = None) runs \<Longrightarrow> latestData (run_cycles runs srv) \<noteq> None"
proof (induction runs arbitrary: srv)
  case Nil
  then show ?case by simp
next
  case (Cons r runs)
  show ?case
  proof (cases r)
    case None
    with Cons show ?thesis by (simp add: run_cycles_Cons updateData_def)
  next
    case (Some c)
    then have "latestData (updateData r srv) \<noteq> None"
      by (simp add: updateData_def Let_def)
    then show ?thesis by (simp add: run_cycles_Cons published_stays)
  qed
qed

text \<open>
  C9. A run of \<open>updateData\<close> that throws leaves the published snapshot as it was. Starting
  from the initial server, \<open>GET /api/data\<close> answers 503 (not ready) exactly as long as no
  run has completed; and after a completed run followed only by failed ones it answers
  with exactly the snapshot which that run published, whatever happened before it. The
  states between two runs are the only ones a request can see: the assignment of
  \<open>latestData\<close> is the last statement of the run and replaces the whole object.
\<close>

theorem latest_snapshot_accessor:
  "updateData None srv = srv
   \<and> (api_data (run_cycles runs initial_server) = Inl (503, ''Data not ready yet'')
        \<longleftrightarrow> list_all (\<lambda>r. r = None) runs)
   \<and> (list_all (\<lambda>r. r = None) later \<longrightarrow>
        api_data (run_cycles (earlier @ [Some c] @ later) srv)
          = Inr (make_snapshot c
                   (priceToBeat_of c (latch c (priceToBeatState (run_cycles earlier srv))))))"
proof -
  have failed: "updateData None srv = srv"
    by (simp add: updateData_def)
  have ready: "api_data (run_cycles runs initial_server) = Inl (503, ''Data not ready yet'')
        \<longleftrightarrow> list_all (\<lambda>r. r = None) runs"
  proof (cases "list_all (\<lambda>r. r = None) runs")
    case True
    then show ?thesis
      by (simp add: run_cycles_failed api_data_def initial_server_def)
  next
    case False
    from published_after_success[OF this, of initial_server] False show ?thesis
      by (auto simp: api_data_def split: option.splits)
  qed
  have kept: "api_data (run_cycles (earlier @ [Some c] @ later) srv)
          = Inr (make_snapshot c
                   (priceToBeat_of c (latch c (priceToBeatState (run_cycles earlier srv)))))"
    if "list_all (\<lambda>r. r = None) later"
    using that
    by (simp add: run_cycles_append run_cycles_Cons run_cycles_failed updateData_def Let_def
        api_data_def)
  from failed ready kept show ?thesis by blast
qed

theorem latest_snapshot_accessor_witness:
  "api_data (run_cycles [None, None] initial_server) = Inl (503, ''Data not ready yet'')
   \<and> list_all (\<lambda>r. r = None) [None, None :: cycle option]
   \<and> api_data (run_cycles ([None, Some cycle_A_early] @ [Some cycle_A] @ [None, None, None])
                  initial_server)
       = Inr (make_snapshot cycle_A (Some 60200))"
proof -
  have fails: "list_all (\<lambda>r. r = None) [None, None :: cycle option]"
    "list_all (\<lambda>r. r = None) [None, None, None :: cycle option]"
    by simp_all
  have "priceToBeat_of cycle_A
          (latch cycle_A (priceToBeatState (run_cycles [None, Some cycle_A_early] initial_server)))
        = Some 60200"
    by (simp add: run_cycles_def updateData_def initial_server_def latch_def priceToBeat_of_def
        cycle_A_def cycle_A_early_def Let_def)
  with latest_snapshot_accessor[of initial_server "[None, None]" "[None, None, None]"
      "[None, Some cycle_A_early]" cycle_A] fails
  show ?thesis by simp
qed

subsection \<open>The latched price to beat\<close>

lemma latch_keeps:
  assumes "ptb_slug st = Some S" "S \<noteq> []" "ptb_value st = Some v"
    "marketSlug_in c = S \<or> marketSlug_in c = []"
  shows "latch c st = st"
  using assms by (auto simp: latch_def)

lemma run_cycles_keeps:
  assumes "ptb_slug (priceToBeatState srv) = Some S" "S \<noteq> []"
    "ptb_value (priceToBeatState srv) = Some v" "list_all (under_slug S) runs"
  shows "priceToBeatState (run_cycles runs srv) = priceToBeatState srv"
  using assms
proof (induction runs arbitrary: srv)
  case Nil
  then show ?case by (simp add: run_cycles_Nil)
next
  case (Cons r runs)
  have same: "priceToBeatState (updateData r srv) = priceToBeatState srv"
  proof (cases r)
    case None
    then show ?thesis by (simp add: updateData_def)
  next
    case (Some c)
    with Cons.prems have "marketSlug_in c = S \<or> marketSlug_in c = []"
      by (simp add: under_slug_def)
    from latch_keeps[OF Cons.prems(1-3) this] Some show ?thesis
      by (simp add: updateData_def Let_def)
  qed
  with Cons.IH[of "updateData r srv"] Cons.prems show ?case
    by (simp add: run_cycles_Cons)
qed

text \<open>
  C5, as the code has it. Once a value is latched for the tracked slug \<open>S\<close>, no run of
  cycles whose market is \<open>S\<close> or missing (or which fail) changes slug, value or latch time.
  One cycle does one of three things to the latch: nothing; clearing it for a new slug;
  or latching the current oracle price with the time of the cycle, which happens only
  while no value is held for the cycle's slug and only if the start time known to this
  cycle is null or not after the clock. When the cycle's slug differs from the tracked
  one, the new slug is tracked, and the price to beat shown is the value held afterwards:
  null, or the price latched in this very cycle, never the value of the old slug.
\<close>

theorem price_to_beat_latching:
  "(ptb_slug (priceToBeatState srv) = Some S \<and> S \<noteq> []
      \<and> ptb_value (priceToBeatState srv) = Some v \<and> list_all (under_slug S) runs
     \<longrightarrow> priceToBeatState (run_cycles runs srv) = priceToBeatState srv)
   \<and> (latch c st = st
       \<or> latch c st = \<lparr>ptb_slug = Some (marketSlug_in c), ptb_value = None, ptb_setAtMs = None\<rparr>
       \<or> ((ptb_value st = None \<or> ptb_slug st \<noteq> Some (marketSlug_in c))
           \<and> (marketStartMs c = NoStart
               \<or> (\<exists>startMs. marketStartMs c = StartAt startMs \<and> startMs \<le> nowMs c))
           \<and> currentPrice_in c \<noteq> None
           \<and> ptb_value (latch c st) = currentPrice_in c
           \<and> ptb_setAtMs (latch c st) = Some (nowMs c)))
   \<and> (marketSlug_in c \<noteq> [] \<and> ptb_slug st \<noteq> Some (marketSlug_in c) \<longrightarrow>
         ptb_slug (latch c st) = Some (marketSlug_in c)
         \<and> priceToBeat_of c (latch c st) = ptb_value (latch c st)
         \<and> (ptb_value (latch c st) = None \<or> ptb_setAtMs (latch c st) = Some (nowMs c))
         \<and> (currentPrice_in c = None \<or> \<not> okToLatch (marketStartMs c) (nowMs c)
              \<longrightarrow> priceToBeat_of c (latch c st) = None))"
proof -
  have ok: "okToLatch (marketStartMs c) (nowMs c)
              \<longleftrightarrow> marketStartMs c = NoStart
                  \<or> (\<exists>startMs. marketStartMs c = StartAt startMs \<and> startMs \<le> nowMs c)"
    by (cases "marketStartMs c") simp_all
  have keeps: "priceToBeatState (run_cycles runs srv) = priceToBeatState srv"
    if "ptb_slug (priceToBeatState srv) = Some S \<and> S \<noteq> []
      \<and> ptb_value (priceToBeatState srv) = Some v \<and> list_all (under_slug S) runs"
    using that run_cycles_keeps by blast
  have effect: "latch c st = st
       \<or> latch c st = \<lparr>ptb_slug = Some (marketSlug_in c), ptb_value = None, ptb_setAtMs = None\<rparr>
       \<or> ((ptb_value st = None \<or> ptb_slug st \<noteq> Some (marketSlug_in c))
           \<and> okToLatch (marketStartMs c) (nowMs c)
           \<and> currentPrice_in c \<noteq> None
           \<and> ptb_value (latch c st) = currentPrice_in c
           \<and> ptb_setAtMs (latch c st) = Some (nowMs c))"
    by (auto simp: latch_def Let_def)
  have switch: "ptb_slug (latch c st) = Some (marketSlug_in c)
         \<and> priceToBeat_of c (latch c st) = ptb_value (latch c st)
         \<and> (ptb_value (latch c st) = None \<or> ptb_setAtMs (latch c st) = Some (nowMs c))
         \<and> (currentPrice_in c = None \<or> \<not> okToLatch (marketStartMs c) (nowMs c)
              \<longrightarrow> priceToBeat_of c (latch c st) = None)"
    if "marketSlug_in c \<noteq> [] \<and> ptb_slug st \<noteq> Some (marketSlug_in c)"
    using that by (auto simp: latch_def Let_def priceToBeat_of_def)
  from keeps effect switch show ?thesis
    unfolding ok by blast
qed

theorem price_to_beat_latching_witness:
  "priceToBeatState (run_cycles [Some cycle_A_early, Some cycle_A] initial_server)
     = \<lparr>ptb_slug = Some ''btc-updown-15m-A'', ptb_value = Some 60200,
        ptb_setAtMs = Some 1700000130000\<rparr>
   \<and> list_all (under_slug ''btc-updown-15m-A'') [Some cycle_A_later, None, Some cycle_no_market]
   \<and> priceToBeatState (run_cycles [Some cycle_A_later, None, Some cycle_no_market]
         (run_cycles [Some cycle_A_early, Some cycle_A] initial_server))
     = \<lparr>ptb_slug = Some ''btc-updown-15m-A'', ptb_value = Some 60200,
        ptb_setAtMs = Some 1700000130000\<rparr>
   \<and> ptb_slug (latch cycle_B \<lparr>ptb_slug = Some ''btc-updown-15m-A'', ptb_value = Some 60200,
        ptb_setAtMs = Some 1700000130000\<rparr>) = Some ''btc-updown-15m-B''
   \<and> priceToBeat_of cycle_B (latch cycle_B \<lparr>ptb_slug = Some ''btc-updown-15m-A'',
        ptb_value = Some 60200, ptb_setAtMs = Some 1700000130000\<rparr>) = Some 61000
   \<and> priceToBeat_of (cycle_B\<lparr>currentPrice_in := None\<rparr>)
        (latch (cycle_B\<lparr>currentPrice_in := None\<rparr>) \<lparr>ptb_slug = Some ''btc-updown-15m-A'',
           ptb_value = Some 60200, ptb_setAtMs = Some 1700000130000\<rparr>) = None"
proof -
  let ?A = "\<lparr>ptb_slug = Some ''btc-updown-15m-A'', ptb_value = Some 60200,
             ptb_setAtMs = Some 1700000130000\<rparr>"
  let ?srv = "run_cycles [Some cycle_A_early, Some cycle_A] initial_server"
  have latched: "priceToBeatState ?srv = ?A"
    by (simp add: run_cycles_def updateData_def initial_server_def latch_def cycle_A_def
        cycle_A_early_def Let_def)
  have tracked: "list_all (under_slug ''btc-updown-15m-A'')
                   [Some cycle_A_later, None, Some cycle_no_market]"
    by (simp add: under_slug_def cycle_A_later_def cycle_no_market_def cycle_A_early_def)
  have pre: "ptb_slug (priceToBeatState ?srv) = Some ''btc-updown-15m-A''
             \<and> ''btc-updown-15m-A'' \<noteq> []
             \<and> ptb_value (priceToBeatState ?srv) = Some 60200
             \<and> list_all (under_slug ''btc-updown-15m-A'')
                  [Some cycle_A_later, None, Some cycle_no_market]"
    using tracked by (simp add: latched)
  have other: "marketSlug_in cycle_B \<noteq> [] \<and> ptb_slug ?A \<noteq> Some (marketSlug_in cycle_B)"
    "marketSlug_in (cycle_B\<lparr>currentPrice_in := None\<rparr>) \<noteq> []
     \<and> ptb_slug ?A \<noteq> Some (marketSlug_in (cycle_B\<lparr>currentPrice_in := None\<rparr>))"
    "marketSlug_in cycle_B = ''btc-updown-15m-B''"
    "currentPrice_in (cycle_B\<lparr>currentPrice_in := None\<rparr>) = None"
    by (simp_all add: cycle_B_def cycle_A_early_def)
  have now_B: "ptb_value (latch cycle_B ?A) = Some 61000"
    by (simp add: latch_def cycle_B_def cycle_A_early_def Let_def)
  have kept: "priceToBeatState (run_cycles [Some cycle_A_later, None, Some cycle_no_market] ?srv)
                = priceToBeatState ?srv"
    using price_to_beat_latching[of ?srv "''btc-updown-15m-A''" 60200
        "[Some cycle_A_later, None, Some cycle_no_market]" cycle_B ?A] pre
    by blast
  have switched: "ptb_slug (latch cycle_B ?A) = Some (marketSlug_in cycle_B)"
    "priceToBeat_of cycle_B (latch cycle_B ?A) = ptb_value (latch cycle_B ?A)"
    using price_to_beat_latching[of ?srv "''btc-updown-15m-A''" 60200
        "[Some cycle_A_later, None, Some cycle_no_market]" cycle_B ?A] other(1)
    by blast+
  have cleared: "priceToBeat_of (cycle_B\<lparr>currentPrice_in := None\<rparr>)
                   (latch (cycle_B\<lparr>currentPrice_in := None\<rparr>) ?A) = None"
    using price_to_beat_latching[of ?srv "''btc-updown-15m-A''" 60200
        "[Some cycle_A_later, None, Some cycle_no_market]"
        "cycle_B\<lparr>currentPrice_in := None\<rparr>" ?A] other(2,4)
    by blast
  from latched tracked kept switched cleared now_B other(3) show ?thesis
    by simp
qed

text \<open>
  C5 as worded fails twice. Market \<open>A\<close> is first seen before its window starts, so nothing
  is latched; the next cycle finds no market, knows no start time, and latches the oracle
  price under slug \<open>A\<close> half a minute before the start of \<open>A\<close>. And after \<open>A\<close>, \<open>B\<close>, \<open>A\<close> the
  price to beat of \<open>A\<close> is latched a second time, at another value.
\<close>

theorem price_to_beat_latching_counterexample:
  "priceToBeatState (run_cycles [Some cycle_A_early, Some cycle_no_market] initial_server)
     = \<lparr>ptb_slug = Some ''btc-updown-15m-A'', ptb_value = Some 60100,
        ptb_setAtMs = Some 1700000080000\<rparr>
   \<and> marketStartMs cycle_A_early = StartAt 1700000100000
   \<and> priceToBeatState (run_cycles [Some cycle_A] initial_server)
     = \<lparr>ptb_slug = Some ''btc-updown-15m-A'', ptb_value = Some 60200,
        ptb_setAtMs = Some 1700000130000\<rparr>
   \<and> priceToBeatState (run_cycles [Some cycle_A, Some cycle_B, Some cycle_A_again] initial_server)
     = \<lparr>ptb_slug = Some ''btc-updown-15m-A'', ptb_value = Some 61500,
        ptb_setAtMs = Some 1700001090000\<rparr>"
  by (simp add: run_cycles_def updateData_def initial_server_def latch_def Let_def
      cycle_A_early_def cycle_no_market_def cycle_A_def cycle_B_def cycle_A_again_def)

end
